theory Spec2Isabelle
  imports Complex_Main "HOL-Library.AList" "HOL-Library.Multiset" "HOL-Library.Word"
begin

section \<open>Python values, exceptions and hardware interfaces\<close>

text \<open>
  Byte strings are lists of 8-bit words, Python \<open>str\<close> is \<open>string\<close>, and a Python
  \<open>dict\<close> whose insertion order is observable is an association list that is
  updated in place (\<open>AList.update\<close>: an existing key keeps its position, a new key
  is appended).
\<close>

type_synonym bytes = "8 word list"

datatype pyval =
    PNone
  | PBool bool
  | PInt int
  | PStr string
  | PBytes bytes
  | PList "pyval list"
  | PDict "(string \<times> pyval) list"

type_synonym pydict = "(string \<times> pyval) list"

text \<open>
  Exceptions are values. \<open>CancelledError\<close>, \<open>KeyboardInterrupt\<close> and \<open>SystemExit\<close>
  derive from \<open>BaseException\<close> only, so an \<open>except Exception\<close> clause lets them pass.
\<close>

datatype exn_class =
    RuntimeError | AttributeError | KeyError | ValueError | TypeError
  | ConnectionError | OtherException
  | CancelledError | KeyboardInterrupt | SystemExit

datatype exn = Exn exn_class string

fun exn_cls :: "exn \<Rightarrow> exn_class" where
  "exn_cls (Exn c m) = c"

fun exn_str :: "exn \<Rightarrow> string" where
  "exn_str (Exn c m) = m"

definition is_Exception :: "exn \<Rightarrow> bool" where
  "is_Exception e =
     (exn_cls e \<noteq> CancelledError \<and> exn_cls e \<noteq> KeyboardInterrupt \<and> exn_cls e \<noteq> SystemExit)"

text \<open>
  \<open>src/hardware/interfaces.py\<close>, with the behaviour of the desktop stubs
  (\<open>src/hardware/stubs.py\<close>): a microphone with an open flag, a speaker with an open
  flag, and a display that remembers the last text and status. The speaker carries
  \<open>written\<close>, the log of every chunk accepted by \<open>write_chunk\<close>; the log is never
  reset, so that writes before and after a reopening can be told apart.
\<close>

record AudioInput =
  in_open :: bool
  in_sample_rate :: int
  in_chunk_size :: int

definition in_open_stream :: "AudioInput \<Rightarrow> int \<Rightarrow> int \<Rightarrow> AudioInput" where
  "in_open_stream a rate chunk =
     a\<lparr>in_sample_rate := rate, in_chunk_size := chunk, in_open := True\<rparr>"

definition in_close_stream :: "AudioInput \<Rightarrow> AudioInput" where
  "in_close_stream a = a\<lparr>in_open := False\<rparr>"

text \<open>\<open>read_chunk\<close> raises on a closed stream; the bytes read come from outside.\<close>

definition in_read_chunk :: "AudioInput \<Rightarrow> bytes \<Rightarrow> exn + bytes" where
  "in_read_chunk a heard =
     (if \<not> in_open a then Inl (Exn RuntimeError ''Audio input stream is not open.'')
      else Inr heard)"

record AudioOutput =
  out_open :: bool
  out_sample_rate :: int
  written :: "bytes list"

definition out_open_stream :: "AudioOutput \<Rightarrow> int \<Rightarrow> AudioOutput" where
  "out_open_stream a rate = a\<lparr>out_sample_rate := rate, out_open := True\<rparr>"

definition out_write_chunk :: "AudioOutput \<Rightarrow> bytes \<Rightarrow> exn + AudioOutput" where
  "out_write_chunk a data =
     (if \<not> out_open a then Inl (Exn RuntimeError ''Audio output stream is not open.'')
      else Inr (a\<lparr>written := written a @ [data]\<rparr>))"

definition out_stop :: "AudioOutput \<Rightarrow> AudioOutput" where
  "out_stop a = a\<lparr>out_open := False\<rparr>"

definition bytes_written :: "AudioOutput \<Rightarrow> nat" where
  "bytes_written a = length (concat (written a))"

record DisplayOutput =
  last_text :: string
  last_status :: string

definition show_text :: "DisplayOutput \<Rightarrow> string \<Rightarrow> DisplayOutput" where
  "show_text d t = d\<lparr>last_text := t\<rparr>"

definition show_status :: "DisplayOutput \<Rightarrow> string \<Rightarrow> DisplayOutput" where
  "show_status d s = d\<lparr>last_status := s\<rparr>"

definition display_clear :: "DisplayOutput \<Rightarrow> DisplayOutput" where
  "display_clear d = d\<lparr>last_text := [], last_status := []\<rparr>"

section \<open>Tool server (\<open>src/tools/server.py\<close>)\<close>

text \<open>
  A handler is a Python callable. Its model is a function from the argument dict to
  what the call (awaited, if it returns an awaitable) ends with: a dict, some other
  value (given by its \<open>str()\<close>), or an exception.
\<close>

datatype handler_result =
    HDict pydict
  | HValue string
  | HRaise exn

record ToolParam =
  param_type :: string
  param_description :: string
  param_required :: bool

record ToolDefinition =
  tool_name :: string
  tool_description :: string
  tool_parameters :: "(string \<times> ToolParam) list"
  tool_handler :: "pydict \<Rightarrow> handler_result"

type_synonym ToolServer = "(string \<times> ToolDefinition) list"

definition ToolServer_init :: ToolServer where
  "ToolServer_init = []"

definition register_tool :: "ToolServer \<Rightarrow> ToolDefinition \<Rightarrow> ToolServer" where
  "register_tool tools tool = AList.update (tool_name tool) tool tools"

text \<open>\<open>str.upper()\<close> on the ASCII letters (the type tags are JSON schema type names).\<close>

definition upper_char :: "char \<Rightarrow> char" where
  "upper_char c =
     (let n = (of_char c :: nat) in if 97 \<le> n \<and> n \<le> 122 then char_of (n - 32) else c)"

definition upper :: "string \<Rightarrow> string" where
  "upper s = map upper_char s"

record ParamSchema =
  schema_type :: string
  schema_properties :: "(string \<times> (string \<times> string)) list"
  schema_required :: "string list"

record FunctionDeclaration =
  decl_name :: string
  decl_description :: string
  decl_parameters :: "ParamSchema option"

text \<open>
  The loop body of \<open>get_tool_declarations\<close>: the \<open>parameters\<close> entry exists only for a
  tool with at least one parameter; \<open>required\<close> lists, in order, the parameters whose
  flag is set.
\<close>

definition declaration_of :: "ToolDefinition \<Rightarrow> FunctionDeclaration" where
  "declaration_of tool =
     \<lparr>decl_name = tool_name tool,
      decl_description = tool_description tool,
      decl_parameters =
        (if tool_parameters tool = [] then None
         else Some
           \<lparr>schema_type = ''OBJECT'',
            schema_properties =
              map (\<lambda>(param_name, param).
                     (param_name, (upper (param_type param), param_description param)))
                  (tool_parameters tool),
            schema_required =
              map fst (filter (\<lambda>(param_name, param). param_required param)
                              (tool_parameters tool))\<rparr>)\<rparr>"

datatype tool_dict = FunctionDeclarations "FunctionDeclaration list"

fun function_declarations :: "tool_dict \<Rightarrow> FunctionDeclaration list" where
  "function_declarations (FunctionDeclarations ds) = ds"

definition get_tool_declarations :: "ToolServer \<Rightarrow> tool_dict list option" where
  "get_tool_declarations tools =
     (if tools = [] then None
      else Some [FunctionDeclarations (map (\<lambda>(k, tool). declaration_of tool) tools)])"

text \<open>
  \<open>execute_tool\<close>: an unknown name gives the error dict; an \<open>Exception\<close> raised by the
  handler becomes an error dict; anything that is not a dict is wrapped. An exception
  that is no \<open>Exception\<close> (a cancellation, say) is not caught.
\<close>

definition execute_tool :: "ToolServer \<Rightarrow> string \<Rightarrow> pydict \<Rightarrow> exn + pydict" where
  "execute_tool tools name args =
     (case map_of tools name of
        None \<Rightarrow> Inr [(''error'', PStr (''Unknown tool: '' @ name))]
      | Some tool \<Rightarrow>
          (case tool_handler tool args of
             HDict d \<Rightarrow> Inr d
           | HValue s \<Rightarrow> Inr [(''result'', PStr s)]
           | HRaise e \<Rightarrow>
               if is_Exception e
               then Inr [(''error'', PStr (''Tool execution failed: '' @ exn_str e))]
               else Inl e))"

definition registered_tools :: "ToolServer \<Rightarrow> string list" where
  "registered_tools tools = map fst tools"

text \<open>The required-parameter set of a declaration; a missing schema has none.\<close>

definition required_set :: "FunctionDeclaration \<Rightarrow> string set" where
  "required_set d = (case decl_parameters d of None \<Rightarrow> {} | Some s \<Rightarrow> set (schema_required s))"

definition declared :: "ToolServer \<Rightarrow> FunctionDeclaration list" where
  "declared tools =
     (case get_tool_declarations tools of
        None \<Rightarrow> []
      | Some ds \<Rightarrow> concat (map function_declarations ds))"

section \<open>Remote session client (\<open>src/gemini/session.py\<close>)\<close>

record GeminiSessionConfig =
  cfg_model :: string
  cfg_voice :: string
  cfg_system_prompt :: string
  cfg_tools :: "tool_dict list"
  cfg_vad_sensitivity :: string

record ServerMessage =
  msg_type :: string
  msg_audio_data :: bytes
  msg_text :: string
  msg_tool_call_id :: string
  msg_tool_name :: string
  msg_tool_args :: pydict

definition ServerMessage_init :: "string \<Rightarrow> ServerMessage" where
  "ServerMessage_init ty =
     \<lparr>msg_type = ty, msg_audio_data = [], msg_text = [], msg_tool_call_id = [],
      msg_tool_name = [], msg_tool_args = []\<rparr>"

text \<open>
  What the SDK connection object has been asked to send. The SDK itself is outside the
  repository; a call to it either returns or raises, which each operation takes as an
  argument (\<open>None\<close>: it returns).
\<close>

datatype sdk_call =
    RealtimeInput bytes
  | ToolResponse string string pydict

record GeminiSession =
  api_key :: string
  config :: GeminiSessionConfig
  has_client :: bool
  has_session :: bool
  has_session_cm :: bool
  connected :: bool
  tool_call_names :: "(string \<times> string) list"
  wire :: "sdk_call list"

definition GeminiSession_init :: "string \<Rightarrow> GeminiSessionConfig \<Rightarrow> GeminiSession" where
  "GeminiSession_init key cfg =
     \<lparr>api_key = key, config = cfg, has_client = False, has_session = False,
      has_session_cm = False, connected = False, tool_call_names = [], wire = []\<rparr>"

text \<open>
  \<open>connect\<close>: the context manager is stored before it is entered; \<open>__aenter__\<close> is
  where a failed open raises.
\<close>

definition connect :: "GeminiSession \<Rightarrow> exn option \<Rightarrow> exn option \<times> GeminiSession" where
  "connect s enter =
     (let s1 = s\<lparr>has_client := True, has_session_cm := True\<rparr> in
      case enter of
        Some e \<Rightarrow> (Some e, s1)
      | None \<Rightarrow> (None, s1\<lparr>has_session := True, connected := True\<rparr>))"

definition is_connected :: "GeminiSession \<Rightarrow> bool" where
  "is_connected s = connected s"

definition not_connected_error :: exn where
  "not_connected_error = Exn RuntimeError ''Gemini session is not connected.''"

definition send_audio :: "GeminiSession \<Rightarrow> bytes \<Rightarrow> exn option \<Rightarrow> exn option \<times> GeminiSession" where
  "send_audio s chunk sdk =
     (if \<not> connected s \<or> \<not> has_session s then (Some not_connected_error, s)
      else case sdk of
             Some e \<Rightarrow> (Some e, s)
           | None \<Rightarrow> (None, s\<lparr>wire := wire s @ [RealtimeInput chunk]\<rparr>))"

text \<open>\<open>dict.pop(key, default)\<close> on an association list.\<close>

definition dict_pop :: "(string \<times> 'v) list \<Rightarrow> string \<Rightarrow> 'v \<Rightarrow> 'v \<times> (string \<times> 'v) list" where
  "dict_pop d k dflt =
     (case map_of d k of
        None \<Rightarrow> (dflt, d)
      | Some v \<Rightarrow> (v, AList.delete k d))"

definition send_tool_response ::
  "GeminiSession \<Rightarrow> string \<Rightarrow> pydict \<Rightarrow> exn option \<Rightarrow> exn option \<times> GeminiSession" where
  "send_tool_response s call_id result sdk =
     (if \<not> connected s \<or> \<not> has_session s then (Some not_connected_error, s)
      else
        let (name, names) = dict_pop (tool_call_names s) call_id [];
            s1 = s\<lparr>tool_call_names := names\<rparr>
        in case sdk of
             Some e \<Rightarrow> (Some e, s1)
           | None \<Rightarrow> (None, s1\<lparr>wire := wire s1 @ [ToolResponse call_id name result]\<rparr>))"

text \<open>
  \<open>close\<close>: nothing happens without a context manager; otherwise the fields are reset
  in the \<open>finally\<close> block whatever \<open>__aexit__\<close> does. An \<open>Exception\<close> from \<open>__aexit__\<close>
  is logged; anything else goes on to the caller after the reset.
\<close>

definition close :: "GeminiSession \<Rightarrow> exn option \<Rightarrow> exn option \<times> GeminiSession" where
  "close s aexit =
     (if has_session_cm s then
        let s1 = s\<lparr>has_session := False, has_session_cm := False, connected := False,
                   tool_call_names := []\<rparr>
        in case aexit of
             None \<Rightarrow> (None, s1)
           | Some e \<Rightarrow> if is_Exception e then (None, s1) else (Some e, s1)
      else (None, s))"

subsection \<open>Normalising SDK messages\<close>

record Part =
  inline_data :: "bytes option"
  part_text :: "string option"

record ServerContent =
  model_turn :: "Part list option"
  output_transcription :: "string option"
  input_transcription :: "string option"
  sc_interrupted :: bool
  sc_turn_complete :: bool

record FunctionCall =
  fc_id :: "string option"
  fc_name :: "string option"
  fc_args :: "pydict option"

record LiveServerMessage =
  setup_complete :: bool
  server_content :: "ServerContent option"
  tool_call :: "FunctionCall list option"
  tool_call_cancellation :: "string list option option"
  go_away :: bool

text \<open>Python truthiness of an optional string or byte string: present and not empty.\<close>

definition truthy :: "'a list option \<Rightarrow> bool" where
  "truthy v = (case v of None \<Rightarrow> False | Some xs \<Rightarrow> xs \<noteq> [])"

definition or_empty :: "'a list option \<Rightarrow> 'a list" where
  "or_empty v = (case v of None \<Rightarrow> [] | Some xs \<Rightarrow> xs)"

fun join_comma :: "string list \<Rightarrow> string" where
  "join_comma [] = []"
| "join_comma [x] = x"
| "join_comma (x # y # ys) = x @ '','' @ join_comma (y # ys)"

definition parse_part :: "Part \<Rightarrow> ServerMessage list" where
  "parse_part part =
     (if truthy (inline_data part)
      then [(ServerMessage_init ''audio'')\<lparr>msg_audio_data := or_empty (inline_data part)\<rparr>]
      else []) @
     (if truthy (part_text part)
      then [(ServerMessage_init ''transcription'')\<lparr>msg_text := or_empty (part_text part)\<rparr>]
      else [])"

definition parse_content :: "ServerContent \<Rightarrow> ServerMessage list" where
  "parse_content sc =
     (if truthy (model_turn sc) then concat (map parse_part (or_empty (model_turn sc))) else []) @
     (if truthy (output_transcription sc)
      then [(ServerMessage_init ''transcription'')\<lparr>msg_text := or_empty (output_transcription sc)\<rparr>]
      else []) @
     (if truthy (input_transcription sc)
      then [(ServerMessage_init ''input_transcription'')
              \<lparr>msg_text := or_empty (input_transcription sc)\<rparr>]
      else []) @
     (if sc_interrupted sc then [ServerMessage_init ''interrupted''] else []) @
     (if sc_turn_complete sc then [ServerMessage_init ''turn_complete''] else [])"

definition parse_call :: "FunctionCall \<Rightarrow> ServerMessage" where
  "parse_call fc =
     (ServerMessage_init ''tool_call'')
       \<lparr>msg_tool_call_id := or_empty (fc_id fc),
        msg_tool_name := or_empty (fc_name fc),
        msg_tool_args := or_empty (fc_args fc)\<rparr>"

definition note_calls :: "(string \<times> string) list \<Rightarrow> FunctionCall list \<Rightarrow> (string \<times> string) list" where
  "note_calls names fcs =
     fold (\<lambda>fc d. AList.update (or_empty (fc_id fc)) (or_empty (fc_name fc)) d) fcs names"

definition parse_message :: "GeminiSession \<Rightarrow> LiveServerMessage \<Rightarrow> ServerMessage list \<times> GeminiSession" where
  "parse_message s message =
     ((if setup_complete message then [ServerMessage_init ''setup_complete''] else []) @
      (case server_content message of None \<Rightarrow> [] | Some sc \<Rightarrow> parse_content sc) @
      (case tool_call message of None \<Rightarrow> [] | Some fcs \<Rightarrow> map parse_call fcs) @
      (case tool_call_cancellation message of
         None \<Rightarrow> []
       | Some ids \<Rightarrow>
           [(ServerMessage_init ''tool_call_cancellation'')\<lparr>msg_text := join_comma (or_empty ids)\<rparr>]) @
      (if go_away message then [ServerMessage_init ''go_away''] else []),
      case tool_call message of
        None \<Rightarrow> s
      | Some fcs \<Rightarrow> s\<lparr>tool_call_names := note_calls (tool_call_names s) fcs\<rparr>)"

text \<open>
  \<open>receive\<close>, iterated to its end over what the SDK stream delivers: a list of SDK
  messages and then either the end of the stream (\<open>None\<close>) or an exception. On a
  disconnected session the first step of the iteration raises.
\<close>

fun receive_all ::
  "GeminiSession \<Rightarrow> LiveServerMessage list \<Rightarrow> exn option \<Rightarrow> ServerMessage list \<times> GeminiSession" where
  "receive_all s [] None = ([], s)"
| "receive_all s [] (Some e) =
     (if is_Exception e
      then ([(ServerMessage_init ''error'')\<lparr>msg_text := exn_str e\<rparr>], s\<lparr>connected := False\<rparr>)
      else ([], s))"
| "receive_all s (m # ms) fin =
     (let (out, s1) = parse_message s m;
          (rest, s2) = receive_all s1 ms fin
      in (out @ rest, s2))"

definition receive ::
  "GeminiSession \<Rightarrow> LiveServerMessage list \<Rightarrow> exn option \<Rightarrow> exn + ServerMessage list \<times> GeminiSession" where
  "receive s stream fin =
     (if \<not> connected s \<or> \<not> has_session s then Inl not_connected_error
      else Inr (receive_all s stream fin))"

section \<open>Capture pipeline (\<open>src/audio/capture.py\<close>)\<close>

text \<open>
  The stream holds references to the microphone and to the session; both are fields of
  the record, and a caller sharing them copies them in and out around each call.
  \<open>cap_task\<close> says whether \<open>_task\<close> is set.
\<close>

record AudioCaptureStream =
  cap_audio_input :: AudioInput
  cap_session :: "GeminiSession option"
  cap_sample_rate :: int
  cap_chunk_size :: int
  streaming :: bool
  cap_task :: bool

definition AudioCaptureStream_init ::
  "AudioInput \<Rightarrow> GeminiSession option \<Rightarrow> int \<Rightarrow> int \<Rightarrow> AudioCaptureStream" where
  "AudioCaptureStream_init mic s rate chunk =
     \<lparr>cap_audio_input = mic, cap_session = s, cap_sample_rate = rate,
      cap_chunk_size = chunk, streaming = False, cap_task = False\<rparr>"

definition capture_start :: "AudioCaptureStream \<Rightarrow> AudioCaptureStream" where
  "capture_start c =
     (if streaming c then c
      else
        let c1 = (if \<not> in_open (cap_audio_input c)
                  then c\<lparr>cap_audio_input :=
                          in_open_stream (cap_audio_input c) (cap_sample_rate c) (cap_chunk_size c)\<rparr>
                  else c)
        in c1\<lparr>streaming := True, cap_task := True\<rparr>)"

text \<open>
  One turn of \<open>_capture_loop\<close>: read a chunk and forward it if still streaming and the
  session is connected. An \<open>Exception\<close> (a closed microphone, a session that is
  \<open>None\<close>, a failed send) ends streaming; the loop stops when streaming is off.
\<close>

definition capture_iteration :: "AudioCaptureStream \<Rightarrow> bytes \<Rightarrow> AudioCaptureStream" where
  "capture_iteration c heard =
     (if \<not> streaming c then c
      else case in_read_chunk (cap_audio_input c) heard of
             Inl e \<Rightarrow> c\<lparr>streaming := False\<rparr>
           | Inr chunk \<Rightarrow>
               (case cap_session c of
                  None \<Rightarrow> c\<lparr>streaming := False\<rparr>
                | Some s \<Rightarrow>
                    if is_connected s then
                      (case send_audio s chunk None of
                         (Some e, s1) \<Rightarrow> c\<lparr>cap_session := Some s1, streaming := False\<rparr>
                       | (None, s1) \<Rightarrow> c\<lparr>cap_session := Some s1\<rparr>)
                    else c))"

definition capture_loop :: "AudioCaptureStream \<Rightarrow> bytes list \<Rightarrow> AudioCaptureStream" where
  "capture_loop c heard = fold (\<lambda>chunk c. capture_iteration c chunk) heard c"

definition capture_stop :: "AudioCaptureStream \<Rightarrow> AudioCaptureStream" where
  "capture_stop c =
     (let c1 = c\<lparr>streaming := False\<rparr>;
          c2 = (if cap_task c1 then c1\<lparr>cap_task := False\<rparr> else c1)
      in if in_open (cap_audio_input c2)
         then c2\<lparr>cap_audio_input := in_close_stream (cap_audio_input c2)\<rparr>
         else c2)"

text \<open>
  A registry as \<open>register_tool\<close> builds it: the keys are distinct and every entry is
  filed under its own name. \<open>registered ts\<close> is the server after registering \<open>ts\<close> in
  order.
\<close>

definition registry_ok :: "ToolServer \<Rightarrow> bool" where
  "registry_ok tools = (distinct (map fst tools) \<and> list_all (\<lambda>(k, t). tool_name t = k) tools)"

definition registered :: "ToolDefinition list \<Rightarrow> ToolServer" where
  "registered ts = fold (\<lambda>t s. register_tool s t) ts ToolServer_init"

section \<open>Playback pipeline (\<open>src/audio/playback.py\<close>)\<close>

text \<open>
  \<open>_drain_loop\<close> is a coroutine; between two suspension points it runs without
  interruption, and every other task runs only while it is suspended. Its model is the
  place where it is suspended, with the local variables that are live there:
  \<^item> \<open>NotStarted\<close>: the task was created and has not run yet;
  \<^item> \<open>Phase1 k initial\<close>: in \<open>wait_for(queue.get(), 1.0)\<close> of the buffering loop, with
    \<open>k\<close> turns left including this one;
  \<^item> \<open>Phase2 rest ok\<close>: waiting for the executor to write a buffered chunk, \<open>rest\<close>
    still to be written; \<open>ok\<close> tells whether \<open>write_chunk\<close> returned or raised;
  \<^item> \<open>Phase3Get\<close>: in \<open>wait_for(queue.get(), 2.0)\<close> of the draining loop;
  \<^item> \<open>Phase3Write ok\<close>: waiting for the executor to write a drained chunk;
  \<^item> \<open>Finished\<close>: the coroutine has returned or raised.
  The write is made when it is handed to the executor. \<open>cancel_requested\<close> is set by
  \<open>Task.cancel()\<close>; the \<open>CancelledError\<close> is raised inside the coroutine when it runs
  next.
\<close>

datatype drain_pc =
    NotStarted
  | Phase1 nat "bytes list"
  | Phase2 "bytes list" bool
  | Phase3Get
  | Phase3Write bool
  | Finished

record drain_task =
  pc :: drain_pc
  cancel_requested :: bool

text \<open>
  \<open>tasks\<close> holds every drain task the stream has created, \<open>pb_task\<close> is \<open>_task\<close>: the
  index of the task the stream refers to, if any. The queue holds chunks and the
  sentinel \<open>None\<close>.
\<close>

record AudioPlaybackStream =
  pb_audio_output :: AudioOutput
  pb_sample_rate :: int
  buffer_chunks :: int
  queue :: "bytes option list"
  playing :: bool
  pb_task :: "nat option"
  tasks :: "drain_task list"

definition AudioPlaybackStream_init :: "AudioOutput \<Rightarrow> int \<Rightarrow> int \<Rightarrow> AudioPlaybackStream" where
  "AudioPlaybackStream_init out rate buffer =
     \<lparr>pb_audio_output = out, pb_sample_rate = rate, buffer_chunks = buffer,
      queue = [], playing = False, pb_task = None, tasks = []\<rparr>"

definition set_pc :: "AudioPlaybackStream \<Rightarrow> nat \<Rightarrow> drain_pc \<Rightarrow> AudioPlaybackStream" where
  "set_pc p i c = p\<lparr>tasks := (tasks p)[i := (tasks p ! i)\<lparr>pc := c\<rparr>]\<rparr>"

text \<open>Leaving the coroutine through its \<open>finally\<close> block.\<close>

definition finish :: "AudioPlaybackStream \<Rightarrow> nat \<Rightarrow> AudioPlaybackStream" where
  "finish p i = (set_pc p i Finished)\<lparr>playing := False\<rparr>"

definition task_done :: "AudioPlaybackStream \<Rightarrow> nat \<Rightarrow> bool" where
  "task_done p i = (i < length (tasks p) \<and> pc (tasks p ! i) = Finished)"

text \<open>The head of \<open>while self._playing\<close> in phase 3.\<close>

definition enter_phase3 :: "AudioPlaybackStream \<Rightarrow> nat \<Rightarrow> AudioPlaybackStream" where
  "enter_phase3 p i = (if \<not> playing p then finish p i else set_pc p i Phase3Get)"

text \<open>The head of \<open>for chunk in initial\<close> in phase 2, with the chunks not yet written.\<close>

definition enter_phase2 :: "AudioPlaybackStream \<Rightarrow> nat \<Rightarrow> bytes list \<Rightarrow> AudioPlaybackStream" where
  "enter_phase2 p i initial =
     (case initial of
        [] \<Rightarrow> enter_phase3 p i
      | chunk # rest \<Rightarrow>
          if \<not> playing p then finish p i
          else case out_write_chunk (pb_audio_output p) chunk of
                 Inl e \<Rightarrow> set_pc p i (Phase2 rest False)
               | Inr out \<Rightarrow> set_pc (p\<lparr>pb_audio_output := out\<rparr>) i (Phase2 rest True))"

text \<open>
  The drain task \<open>i\<close> runs from where it is suspended to its next suspension point.
  \<open>timed_out\<close> tells whether the time limit of the \<open>wait_for\<close> it is suspended in has
  passed; with an empty queue and no timeout the task stays where it is.
\<close>

definition resume :: "AudioPlaybackStream \<Rightarrow> nat \<Rightarrow> bool \<Rightarrow> AudioPlaybackStream" where
  "resume p i timed_out =
     (if i \<ge> length (tasks p) then p
      else
        let t = tasks p ! i in
        case pc t of
          Finished \<Rightarrow> p
        | NotStarted \<Rightarrow>
            if cancel_requested t then set_pc p i Finished
            else if buffer_chunks p \<le> 0 then enter_phase2 p i []
            else set_pc p i (Phase1 (nat (buffer_chunks p)) [])
        | Phase1 k initial \<Rightarrow>
            if cancel_requested t then finish p i
            else (case queue p of
                    [] \<Rightarrow> if timed_out then enter_phase2 p i initial else p
                  | item # q \<Rightarrow>
                      (case item of
                         None \<Rightarrow> enter_phase2 (p\<lparr>queue := q\<rparr>) i initial
                       | Some chunk \<Rightarrow>
                           if k \<le> 1 then enter_phase2 (p\<lparr>queue := q\<rparr>) i (initial @ [chunk])
                           else set_pc (p\<lparr>queue := q\<rparr>) i (Phase1 (k - 1) (initial @ [chunk]))))
        | Phase2 rest ok \<Rightarrow>
            if cancel_requested t then finish p i
            else if \<not> ok then finish p i
            else enter_phase2 p i rest
        | Phase3Get \<Rightarrow>
            if cancel_requested t then finish p i
            else (case queue p of
                    [] \<Rightarrow> if timed_out then finish p i else p
                  | item # q \<Rightarrow>
                      (case item of
                         None \<Rightarrow> finish (p\<lparr>queue := q\<rparr>) i
                       | Some chunk \<Rightarrow>
                           if \<not> playing p then finish (p\<lparr>queue := q\<rparr>) i
                           else case out_write_chunk (pb_audio_output p) chunk of
                                  Inl e \<Rightarrow> set_pc (p\<lparr>queue := q\<rparr>) i (Phase3Write False)
                                | Inr out \<Rightarrow>
                                    set_pc (p\<lparr>queue := q, pb_audio_output := out\<rparr>) i
                                      (Phase3Write True)))
        | Phase3Write ok \<Rightarrow>
            if cancel_requested t then finish p i
            else if \<not> ok then finish p i
            else enter_phase3 p i)"

definition play_chunk :: "AudioPlaybackStream \<Rightarrow> bytes \<Rightarrow> AudioPlaybackStream" where
  "play_chunk p audio_data =
     (let p1 =
        (if \<not> playing p then
           (let out = (if \<not> out_open (pb_audio_output p)
                       then out_open_stream (pb_audio_output p) (pb_sample_rate p)
                       else pb_audio_output p)
            in p\<lparr>pb_audio_output := out, playing := True,
                 pb_task := Some (length (tasks p)),
                 tasks := tasks p @ [\<lparr>pc = NotStarted, cancel_requested = False\<rparr>]\<rparr>)
         else p)
      in p1\<lparr>queue := queue p1 @ [Some audio_data]\<rparr>)"

text \<open>
  \<open>flush\<close> up to its \<open>await self._task\<close>: with a task that is not done it puts the
  sentinel and then waits for that task (the result names it); otherwise it returns at
  once.
\<close>

definition flush_begin :: "AudioPlaybackStream \<Rightarrow> AudioPlaybackStream \<times> nat option" where
  "flush_begin p =
     (case pb_task p of
        None \<Rightarrow> (p, None)
      | Some i \<Rightarrow>
          if task_done p i then (p, None)
          else (p\<lparr>queue := queue p @ [None]\<rparr>, Some i))"

text \<open>
  \<open>flush\<close> after \<open>flush_begin\<close>: it is suspended in \<open>await self._task\<close> until the task
  it awaits is done, and then returns; with nothing to await it has returned already.
\<close>

definition flush_returned :: "nat option \<Rightarrow> AudioPlaybackStream \<Rightarrow> bool" where
  "flush_returned awaited p = (case awaited of None \<Rightarrow> True | Some i \<Rightarrow> task_done p i)"

definition cancel_task :: "drain_task \<Rightarrow> drain_task" where
  "cancel_task t = (if pc t = Finished then t else t\<lparr>cancel_requested := True\<rparr>)"

definition cancel :: "AudioPlaybackStream \<Rightarrow> nat \<Rightarrow> AudioPlaybackStream" where
  "cancel p i = p\<lparr>tasks := (tasks p)[i := cancel_task (tasks p ! i)]\<rparr>"

definition playback_stop :: "AudioPlaybackStream \<Rightarrow> AudioPlaybackStream" where
  "playback_stop p =
     (let p1 = p\<lparr>playing := False, queue := []\<rparr>;
          p2 = (case pb_task p1 of
                  None \<Rightarrow> p1
                | Some i \<Rightarrow> (cancel p1 i)\<lparr>pb_task := None\<rparr>)
      in if out_open (pb_audio_output p2)
         then p2\<lparr>pb_audio_output := out_stop (pb_audio_output p2)\<rparr>
         else p2)"

text \<open>
  A run of the stream: the calls made on it and the turns of its drain tasks, in the
  order in which they happen.
\<close>

datatype pb_action =
    PlayChunk bytes
  | FlushPut
  | Stop
  | Resume nat bool

fun pb_step :: "pb_action \<Rightarrow> AudioPlaybackStream \<Rightarrow> AudioPlaybackStream" where
  "pb_step (PlayChunk audio_data) p = play_chunk p audio_data"
| "pb_step FlushPut p = fst (flush_begin p)"
| "pb_step Stop p = playback_stop p"
| "pb_step (Resume i timed_out) p = resume p i timed_out"

definition pb_run :: "pb_action list \<Rightarrow> AudioPlaybackStream \<Rightarrow> AudioPlaybackStream" where
  "pb_run acts p = fold pb_step acts p"

fun enqueued :: "pb_action list \<Rightarrow> bytes list" where
  "enqueued [] = []"
| "enqueued (PlayChunk audio_data # acts) = audio_data # enqueued acts"
| "enqueued (a # acts) = enqueued acts"

section \<open>Wake-word monitor (\<open>src/wake_word/detector.py\<close>) and personalities\<close>

text \<open>
  Of the detector the controller uses \<open>start\<close> and \<open>stop\<close>. The detector shares
  the microphone with the controller, so both operations work on the pair. Loading the
  acoustic model is a library call that may raise.
\<close>

record WakeWordDetector =
  wd_listening :: bool
  wd_paused :: bool
  wd_task :: bool
  wd_model :: bool

definition WakeWordDetector_init :: WakeWordDetector where
  "WakeWordDetector_init =
     \<lparr>wd_listening = False, wd_paused = False, wd_task = False, wd_model = False\<rparr>"

definition detector_start ::
  "WakeWordDetector \<Rightarrow> AudioInput \<Rightarrow> exn option \<Rightarrow> exn option \<times> WakeWordDetector \<times> AudioInput" where
  "detector_start d mic load =
     (if wd_listening d then (None, d, mic)
      else case load of
             Some e \<Rightarrow> (Some e, d, mic)
           | None \<Rightarrow>
               (None,
                d\<lparr>wd_model := True, wd_listening := True, wd_paused := False, wd_task := True\<rparr>,
                if \<not> in_open mic then in_open_stream mic 16000 1024 else mic))"

definition detector_stop :: "WakeWordDetector \<Rightarrow> AudioInput \<Rightarrow> WakeWordDetector \<times> AudioInput" where
  "detector_stop d mic =
     (d\<lparr>wd_listening := False, wd_task := False, wd_model := False\<rparr>,
      if in_open mic then in_close_stream mic else mic)"

record PersonalityConfig =
  pers_name :: string
  pers_voice :: string
  pers_system_prompt :: string
  pers_description :: string
  conversation_timeout_seconds :: int
  pers_vad_sensitivity :: string

definition lower_char :: "char \<Rightarrow> char" where
  "lower_char c =
     (let n = (of_char c :: nat) in if 65 \<le> n \<and> n \<le> 90 then char_of (n + 32) else c)"

definition lower :: "string \<Rightarrow> string" where
  "lower s = map lower_char s"

type_synonym PersonalityManager = "(string \<times> PersonalityConfig) list"

definition get_personality :: "PersonalityManager \<Rightarrow> string \<Rightarrow> exn + PersonalityConfig" where
  "get_personality pm name =
     (case map_of pm (lower name) of
        None \<Rightarrow> Inl (Exn KeyError name)
      | Some p \<Rightarrow> Inr p)"

definition get_default :: "PersonalityManager \<Rightarrow> exn + PersonalityConfig" where
  "get_default pm = get_personality pm ''friendly''"

section \<open>Controller (\<open>src/core/controller.py\<close>, \<open>src/core/state_machine.py\<close>)\<close>

datatype RobotState = IDLE | CONNECTING | CONVERSATION | SHUTTING_DOWN

record Settings =
  gemini_api_key :: string
  gemini_model :: string
  input_sample_rate :: int
  output_sample_rate :: int
  audio_chunk_size :: int
  default_personality :: string
  settings_conversation_timeout :: int

text \<open>
  \<open>stop_event\<close> is \<open>None\<close> until \<open>start\<close> creates the event, then \<open>Some b\<close> with \<open>b\<close>
  telling whether it is set. Clock readings (\<open>time.monotonic()\<close>) and the timeout are
  real numbers.
\<close>

record RobotController =
  settings :: Settings
  audio_input :: AudioInput
  audio_output :: AudioOutput
  display :: "DisplayOutput option"
  state :: RobotState
  running :: bool
  stop_event :: "bool option"
  personality_manager :: PersonalityManager
  wake_detector :: WakeWordDetector
  tool_server :: ToolServer
  session :: "GeminiSession option"
  last_activity :: real
  conversation_timeout :: real

definition RobotController_init ::
  "Settings \<Rightarrow> AudioInput \<Rightarrow> AudioOutput \<Rightarrow> DisplayOutput option \<Rightarrow> PersonalityManager \<Rightarrow>
   ToolServer \<Rightarrow> RobotController" where
  "RobotController_init st mic spk disp pm tools =
     \<lparr>settings = st, audio_input = mic, audio_output = spk, display = disp,
      state = IDLE, running = False, stop_event = None, personality_manager = pm,
      wake_detector = WakeWordDetector_init, tool_server = tools, session = None,
      last_activity = 0, conversation_timeout = real_of_int (settings_conversation_timeout st)\<rparr>"

definition status :: "RobotController \<Rightarrow> string \<Rightarrow> RobotController" where
  "status c s = (case display c of None \<Rightarrow> c | Some d \<Rightarrow> c\<lparr>display := Some (show_status d s)\<rparr>)"

definition wake_detector_stop :: "RobotController \<Rightarrow> RobotController" where
  "wake_detector_stop c =
     (let (d, mic) = detector_stop (wake_detector c) (audio_input c)
      in c\<lparr>wake_detector := d, audio_input := mic\<rparr>)"

text \<open>
  \<open>session.close()\<close> behind the guard \<open>if self._session and self._session.is_connected\<close>.
\<close>

definition close_session :: "RobotController \<Rightarrow> exn option \<Rightarrow> exn option \<times> RobotController" where
  "close_session c aexit =
     (case session c of
        None \<Rightarrow> (None, c)
      | Some s \<Rightarrow>
          if is_connected s
          then (let (e, s1) = close s aexit in (e, c\<lparr>session := Some s1\<rparr>))
          else (None, c))"

definition stop :: "RobotController \<Rightarrow> exn option \<Rightarrow> exn option \<times> RobotController" where
  "stop c aexit =
     (let c1 = c\<lparr>running := False\<rparr>;
          c2 = (case stop_event c1 of None \<Rightarrow> c1 | Some b \<Rightarrow> c1\<lparr>stop_event := Some True\<rparr>);
          c3 = wake_detector_stop c2
      in close_session c3 aexit)"

definition cleanup :: "RobotController \<Rightarrow> exn option \<Rightarrow> exn option \<times> RobotController" where
  "cleanup c aexit =
     (let c1 = wake_detector_stop c in
      case close_session c1 aexit of
        (Some e, c2) \<Rightarrow> (Some e, c2)
      | (None, c2) \<Rightarrow>
          let c3 = (if in_open (audio_input c2)
                    then c2\<lparr>audio_input := in_close_stream (audio_input c2)\<rparr> else c2);
              c4 = (if out_open (audio_output c3)
                    then c3\<lparr>audio_output := out_stop (audio_output c3)\<rparr> else c3);
              c5 = (case display c4 of None \<Rightarrow> c4 | Some d \<Rightarrow> c4\<lparr>display := Some (display_clear d)\<rparr>)
          in (None, c5))"

subsection \<open>IDLE\<close>

text \<open>
  While the handler is suspended other tasks run. What they do to the controller is
  given from outside: the detection loop fires the wake callback (it can do so only
  while the detector's task exists), or some task calls \<open>stop()\<close> (with what
  \<open>__aexit__\<close> does, should the session be closed).
\<close>

datatype ext = WakeWord | StopCall "exn option"

fun apply_ext :: "ext \<Rightarrow> bool \<times> RobotController \<Rightarrow> bool \<times> RobotController" where
  "apply_ext WakeWord (wake, c) = (wake \<or> (wd_task (wake_detector c) \<and> wd_listening (wake_detector c)), c)"
| "apply_ext (StopCall aexit) (wake, c) = (wake, snd (stop c aexit))"

definition apply_exts :: "ext list \<Rightarrow> bool \<times> RobotController \<Rightarrow> bool \<times> RobotController" where
  "apply_exts es wc = fold apply_ext es wc"

text \<open>
  The race of \<open>asyncio.wait({event_task, stop_task}, FIRST_COMPLETED)\<close>: each element of
  the list is what the other tasks do in one turn of the event loop; the wait ends with
  the first turn after which one of the two events is set, and \<open>done\<close> holds every task
  whose event is set then. The result is (\<open>event_task in done\<close>, \<open>stop_task in done\<close>).
  \<open>None\<close>: the turns given are used up and neither event is set.
\<close>

fun race :: "bool \<Rightarrow> RobotController \<Rightarrow> ext list list \<Rightarrow> (bool \<times> bool \<times> RobotController) option" where
  "race wake c [] =
     (if wake \<or> stop_event c = Some True then Some (wake, stop_event c = Some True, c) else None)"
| "race wake c (turn # turns) =
     (if wake \<or> stop_event c = Some True then Some (wake, stop_event c = Some True, c)
      else race (fst (apply_exts turn (wake, c))) (snd (apply_exts turn (wake, c))) turns)"

record idle_env =
  load_model :: "exn option"
  turns :: "ext list list"
  during_cancel :: "ext list"

text \<open>
  \<open>_wait_for_event_or_stop\<close>: without a stop event the call \<open>self._stop_event.wait()\<close>
  raises. After the race the pending task, if there is one, is cancelled and awaited,
  which lets the other tasks run once more.
\<close>

definition wait_for_event_or_stop ::
  "bool \<Rightarrow> RobotController \<Rightarrow> idle_env \<Rightarrow> ((exn + bool) \<times> RobotController) option" where
  "wait_for_event_or_stop wake c env =
     (case stop_event c of
        None \<Rightarrow> Some (Inl (Exn AttributeError ''wait''), c)
      | Some b \<Rightarrow>
          (case race wake c (turns env) of
             None \<Rightarrow> None
           | Some (event_done, stop_done, c1) \<Rightarrow>
               if event_done \<and> stop_done then Some (Inr event_done, c1)
               else Some (Inr event_done, snd (apply_exts (during_cancel env) (event_done, c1)))))"

definition run_idle :: "RobotController \<Rightarrow> idle_env \<Rightarrow> (exn option \<times> RobotController) option" where
  "run_idle c env =
     (let c1 = status c ''listening'' in
      case detector_start (wake_detector c1) (audio_input c1) (load_model env) of
        (Some e, d, mic) \<Rightarrow> Some (Some e, c1)
      | (None, d, mic) \<Rightarrow>
          let c2 = c1\<lparr>wake_detector := d, audio_input := mic\<rparr> in
          case wait_for_event_or_stop False c2 env of
            None \<Rightarrow> None
          | Some (Inl e, c3) \<Rightarrow> Some (Some e, c3)
          | Some (Inr woke, c3) \<Rightarrow>
              let c4 = wake_detector_stop c3 in
              Some (None, if woke \<and> running c4 then c4\<lparr>state := CONNECTING\<rparr> else c4))"

subsection \<open>CONNECTING\<close>

record connecting_env =
  during_connect :: "ext list"
  enter_outcome :: "exn option"

definition session_config :: "RobotController \<Rightarrow> PersonalityConfig \<Rightarrow> GeminiSessionConfig" where
  "session_config c personality =
     \<lparr>cfg_model = gemini_model (settings c),
      cfg_voice = pers_voice personality,
      cfg_system_prompt = pers_system_prompt personality,
      cfg_tools = (case get_tool_declarations (tool_server c) of None \<Rightarrow> [] | Some ds \<Rightarrow> ds),
      cfg_vad_sensitivity = pers_vad_sensitivity personality\<rparr>"

text \<open>
  The second half of \<open>_run_connecting\<close>, with the personality resolved. \<open>stop()\<close> may
  be called while \<open>connect\<close> is awaited. \<open>except Exception\<close> does not catch a
  cancellation, which leaves the handler with the state unchanged.
\<close>

definition open_session ::
  "RobotController \<Rightarrow> PersonalityConfig \<Rightarrow> connecting_env \<Rightarrow> exn option \<times> RobotController" where
  "open_session c personality env =
     (let s = GeminiSession_init (gemini_api_key (settings c)) (session_config c personality);
          c1 = c\<lparr>session := Some s,
                 conversation_timeout := real_of_int (conversation_timeout_seconds personality)\<rparr>;
          c2 = snd (apply_exts (during_connect env) (False, c1))
      in case session c2 of
           None \<Rightarrow> (None, c2)
         | Some s2 \<Rightarrow>
             (case connect s2 (enter_outcome env) of
                (None, s3) \<Rightarrow> (None, c2\<lparr>session := Some s3, state := CONVERSATION\<rparr>)
              | (Some e, s3) \<Rightarrow>
                  if is_Exception e then (None, c2\<lparr>session := None, state := IDLE\<rparr>)
                  else (Some e, c2\<lparr>session := Some s3\<rparr>)))"

definition resolve_personality :: "RobotController \<Rightarrow> PersonalityConfig option" where
  "resolve_personality c =
     (case get_personality (personality_manager c) (default_personality (settings c)) of
        Inr p \<Rightarrow> Some p
      | Inl e \<Rightarrow>
          (case get_default (personality_manager c) of
             Inr p \<Rightarrow> Some p
           | Inl e' \<Rightarrow> None))"

definition run_connecting :: "RobotController \<Rightarrow> connecting_env \<Rightarrow> exn option \<times> RobotController" where
  "run_connecting c env =
     (let c1 = status c ''connecting'' in
      case resolve_personality c1 of
        None \<Rightarrow> (None, c1\<lparr>state := IDLE\<rparr>)
      | Some personality \<Rightarrow> open_session c1 personality env)"

subsection \<open>CONVERSATION\<close>

text \<open>
  \<open>_handle_message\<close>, with the clock reading \<open>now\<close> and with what the SDK does when the
  tool response is sent. The last component of the result is the drain task that
  \<open>playback.flush()\<close> is left waiting for, if it waits. Tool handlers are values
  (\<open>handler_result\<close>); what a handler does to the display is not part of the model.
\<close>

definition shown :: "RobotController \<Rightarrow> string \<Rightarrow> RobotController" where
  "shown c t = (case display c of None \<Rightarrow> c | Some d \<Rightarrow> c\<lparr>display := Some (show_text d t)\<rparr>)"

definition handle_message ::
  "RobotController \<Rightarrow> AudioPlaybackStream \<Rightarrow> ServerMessage \<Rightarrow> real \<Rightarrow> exn option \<Rightarrow>
   exn option \<times> RobotController \<times> AudioPlaybackStream \<times> nat option" where
  "handle_message c pb msg now sdk =
     (if msg_type msg = ''audio'' then
        (None, c, play_chunk pb (msg_audio_data msg), None)
      else if msg_type msg = ''transcription'' then
        (None, shown c (msg_text msg), pb, None)
      else if msg_type msg = ''input_transcription'' then
        (None, shown (c\<lparr>last_activity := now\<rparr>) (''> '' @ msg_text msg), pb, None)
      else if msg_type msg = ''turn_complete'' then
        (None, c\<lparr>last_activity := now\<rparr>, fst (flush_begin pb), snd (flush_begin pb))
      else if msg_type msg = ''interrupted'' then
        (None, c\<lparr>last_activity := now\<rparr>, playback_stop pb, None)
      else if msg_type msg = ''tool_call'' then
        (case execute_tool (tool_server c) (msg_tool_name msg) (msg_tool_args msg) of
           Inl e \<Rightarrow> (Some e, c, pb, None)
         | Inr result \<Rightarrow>
             let c1 = c\<lparr>last_activity := now\<rparr> in
             (case session c1 of
                None \<Rightarrow> (None, c1, pb, None)
              | Some s \<Rightarrow>
                  if is_connected s then
                    (case send_tool_response s (msg_tool_call_id msg) result sdk of
                       (e, s1) \<Rightarrow> (e, c1\<lparr>session := Some s1\<rparr>, pb, None))
                  else (None, c1, pb, None)))
      else (None, c, pb, None))"

text \<open>
  The tasks of one conversation. The receive task is suspended
  \<^item> \<open>RStart\<close>: before its first step,
  \<^item> \<open>RWait\<close>: in \<open>async for\<close>, waiting for the next message of the session,
  \<^item> \<open>RFlush i cancelled\<close>: in \<open>await self._task\<close> of \<open>flush\<close>, waiting for drain task
    \<open>i\<close>; \<open>cancelled\<close> tells whether \<open>cancel()\<close> has been called on the receive task
    while it waits there,
  or it is done (\<open>RDone\<close>). The timeout monitor is sleeping or done; \<open>_run_conversation\<close>
  is in \<open>asyncio.wait\<close> (\<open>Racing\<close>), in \<open>await task\<close> for the cancelled receive task
  (\<open>AwaitingReceive\<close>), or past both (\<open>Returned\<close>). The session's stream is the list
  of messages it will still yield and what it does after the last one.
\<close>

datatype recv_pc = RStart | RWait | RFlush nat bool | RDone

datatype stream_end = Ends | Blocks

datatype main_pc = Racing | AwaitingReceive | Returned

record conversation =
  cv_controller :: RobotController
  cv_playback :: AudioPlaybackStream
  cv_capture :: AudioCaptureStream
  cv_stream :: "ServerMessage list"
  cv_stream_end :: stream_end
  cv_receive :: recv_pc
  cv_receive_error :: "exn option"
  cv_monitor_done :: bool
  cv_main :: main_pc

text \<open>
  \<open>GeminiSession._parse_message\<close> records the name of every tool call it passes on.
\<close>

definition note_tool_call :: "RobotController \<Rightarrow> ServerMessage \<Rightarrow> RobotController" where
  "note_tool_call c m =
     (if msg_type m = ''tool_call'' then
        (case session c of
           None \<Rightarrow> c
         | Some s \<Rightarrow>
             c\<lparr>session := Some (s\<lparr>tool_call_names :=
                 AList.update (msg_tool_call_id m) (msg_tool_name m) (tool_call_names s)\<rparr>)\<rparr>)
      else c)"

text \<open>
  One turn of \<open>_receive_loop\<close> from \<open>async for\<close>: the next message, the check of
  \<open>_running\<close>, \<open>_handle_message\<close>, and the check for a terminal message.
\<close>

definition next_message :: "conversation \<Rightarrow> real \<Rightarrow> exn option \<Rightarrow> conversation" where
  "next_message cv now sdk =
     (case cv_stream cv of
        [] \<Rightarrow> (case cv_stream_end cv of
                 Ends \<Rightarrow> cv\<lparr>cv_receive := RDone\<rparr>
               | Blocks \<Rightarrow> cv\<lparr>cv_receive := RWait\<rparr>)
      | m # ms \<Rightarrow>
          let c = note_tool_call (cv_controller cv) m;
              cv1 = cv\<lparr>cv_stream := ms, cv_controller := c\<rparr>
          in if \<not> running c then cv1\<lparr>cv_receive := RDone\<rparr>
             else case handle_message c (cv_playback cv1) m now sdk of
                    (Some e, c1, pb1, w) \<Rightarrow>
                      cv1\<lparr>cv_controller := c1, cv_playback := pb1, cv_receive := RDone,
                          cv_receive_error := Some e\<rparr>
                  | (None, c1, pb1, Some i) \<Rightarrow>
                      cv1\<lparr>cv_controller := c1, cv_playback := pb1, cv_receive := RFlush i False\<rparr>
                  | (None, c1, pb1, None) \<Rightarrow>
                      cv1\<lparr>cv_controller := c1, cv_playback := pb1,
                          cv_receive :=
                            (if msg_type m = ''error'' \<or> msg_type m = ''go_away''
                             then RDone else RWait)\<rparr>)"

text \<open>
  The receive task runs. Started on a missing or disconnected session it ends with
  an exception. Waiting in \<open>flush\<close> it goes on once the drain task is done: \<open>flush\<close>
  returns normally, also when the wait was ended by a \<open>CancelledError\<close>, which its
  \<open>except asyncio.CancelledError: pass\<close> catches.
\<close>

definition receive_turn :: "conversation \<Rightarrow> real \<Rightarrow> exn option \<Rightarrow> conversation" where
  "receive_turn cv now sdk =
     (case cv_receive cv of
        RDone \<Rightarrow> cv
      | RStart \<Rightarrow>
          (case session (cv_controller cv) of
             None \<Rightarrow> cv\<lparr>cv_receive := RDone, cv_receive_error := Some (Exn AttributeError ''receive'')\<rparr>
           | Some s \<Rightarrow>
               if \<not> connected s \<or> \<not> has_session s
               then cv\<lparr>cv_receive := RDone, cv_receive_error := Some not_connected_error\<rparr>
               else next_message cv now sdk)
      | RWait \<Rightarrow> next_message cv now sdk
      | RFlush i cancelled \<Rightarrow>
          if task_done (cv_playback cv) i then cv\<lparr>cv_receive := RWait\<rparr> else cv)"

text \<open>
  \<open>_timeout_monitor\<close> after its \<open>sleep(1.0)\<close>, with the clock reading: it returns when
  the silence has reached the timeout, and also when the loop condition no longer
  holds.
\<close>

definition monitor_condition :: "RobotController \<Rightarrow> bool" where
  "monitor_condition c = (running c \<and> state c = CONVERSATION)"

definition monitor_turn :: "conversation \<Rightarrow> real \<Rightarrow> conversation" where
  "monitor_turn cv now =
     (if cv_monitor_done cv then cv
      else
        let c = cv_controller cv; elapsed = now - last_activity c in
        if elapsed \<ge> conversation_timeout c then cv\<lparr>cv_monitor_done := True\<rparr>
        else if monitor_condition c then cv
        else cv\<lparr>cv_monitor_done := True\<rparr>)"

text \<open>
  \<open>cancel()\<close> on the receive task: waiting for a message (or not started) it ends with
  the \<open>CancelledError\<close>, which \<open>_receive_loop\<close> re-raises; waiting in \<open>flush\<close> for a
  drain task, the request goes to that task and the receive task wakes when it is
  done.
\<close>

definition cancel_receive :: "conversation \<Rightarrow> conversation" where
  "cancel_receive cv =
     (case cv_receive cv of
        RDone \<Rightarrow> cv
      | RStart \<Rightarrow> cv\<lparr>cv_receive := RDone\<rparr>
      | RWait \<Rightarrow> cv\<lparr>cv_receive := RDone\<rparr>
      | RFlush i cancelled \<Rightarrow>
          cv\<lparr>cv_playback := cancel (cv_playback cv) i, cv_receive := RFlush i True\<rparr>)"

text \<open>
  \<open>_run_conversation\<close> between \<open>asyncio.wait\<close> and the \<open>finally\<close> block: when one of
  the two tasks is done the other is cancelled and awaited.
\<close>

definition main_turn :: "conversation \<Rightarrow> conversation" where
  "main_turn cv =
     (case cv_main cv of
        Returned \<Rightarrow> cv
      | AwaitingReceive \<Rightarrow>
          if cv_receive cv = RDone then cv\<lparr>cv_main := Returned\<rparr> else cv
      | Racing \<Rightarrow>
          if cv_receive cv = RDone then cv\<lparr>cv_monitor_done := True, cv_main := Returned\<rparr>
          else if cv_monitor_done cv then
            (let cv1 = cancel_receive cv in
             if cv_receive cv1 = RDone then cv1\<lparr>cv_main := Returned\<rparr>
             else cv1\<lparr>cv_main := AwaitingReceive\<rparr>)
          else cv)"

text \<open>
  What happens in one turn of the event loop: the receive task runs (with the clock
  reading and what the SDK does on a send), the monitor wakes from its sleep (with the
  clock reading), a drain task runs, or another task calls \<open>stop()\<close>. After each,
  \<open>_run_conversation\<close> goes on if it can.
\<close>

datatype conv_event =
    Recv real "exn option"
  | Poll real
  | Drain nat bool
  | Ext ext

fun task_turn :: "conv_event \<Rightarrow> conversation \<Rightarrow> conversation" where
  "task_turn (Recv now sdk) cv = receive_turn cv now sdk"
| "task_turn (Poll now) cv = monitor_turn cv now"
| "task_turn (Drain i timed_out) cv = cv\<lparr>cv_playback := resume (cv_playback cv) i timed_out\<rparr>"
| "task_turn (Ext e) cv = cv\<lparr>cv_controller := snd (apply_ext e (False, cv_controller cv))\<rparr>"

definition conv_step :: "conv_event \<Rightarrow> conversation \<Rightarrow> conversation" where
  "conv_step e cv = main_turn (task_turn e cv)"

fun conv_run :: "conv_event list \<Rightarrow> conversation \<Rightarrow> conversation" where
  "conv_run [] cv = cv"
| "conv_run (e # es) cv = (if cv_main cv = Returned then cv else conv_run es (conv_step e cv))"

record conversation_env =
  started_at :: real
  env_stream :: "ServerMessage list"
  env_stream_end :: stream_end
  schedule :: "conv_event list"
  conv_aexit :: "exn option"

text \<open>
  The handler up to \<open>asyncio.wait\<close>: status, the two pipelines (the playback stream
  with the default of three buffered chunks), \<open>capture.start()\<close>, the activity
  timestamp and the two tasks.
\<close>

definition conv_begin :: "RobotController \<Rightarrow> conversation_env \<Rightarrow> conversation" where
  "conv_begin c env =
     (let c1 = status c ''conversation'';
          cap = capture_start
                  (AudioCaptureStream_init (audio_input c1) (session c1)
                     (input_sample_rate (settings c1)) (audio_chunk_size (settings c1)));
          pb = AudioPlaybackStream_init (audio_output c1) (output_sample_rate (settings c1)) 3;
          c2 = c1\<lparr>audio_input := cap_audio_input cap, last_activity := started_at env\<rparr>
      in \<lparr>cv_controller = c2, cv_playback = pb, cv_capture = cap,
          cv_stream = env_stream env, cv_stream_end = env_stream_end env,
          cv_receive = RStart, cv_receive_error = None,
          cv_monitor_done = \<not> monitor_condition c2, cv_main = Racing\<rparr>)"

text \<open>
  The \<open>finally\<close> block. The microphone and the speaker are shared with the pipelines:
  the controller's view of them is what the pipelines leave.
\<close>

definition conv_finally :: "conversation \<Rightarrow> exn option \<Rightarrow> exn option \<times> RobotController" where
  "conv_finally cv aexit =
     (let c = cv_controller cv;
          cap = capture_stop ((cv_capture cv)\<lparr>cap_audio_input := audio_input c\<rparr>);
          pb = playback_stop (cv_playback cv);
          c1 = c\<lparr>audio_input := cap_audio_input cap, audio_output := pb_audio_output pb\<rparr>
      in case close_session c1 aexit of
           (Some e, c2) \<Rightarrow> (Some e, c2)
         | (None, c2) \<Rightarrow> (None, c2\<lparr>session := None, state := IDLE\<rparr>))"

definition run_conversation ::
  "RobotController \<Rightarrow> conversation_env \<Rightarrow> (exn option \<times> RobotController) option" where
  "run_conversation c env =
     (let cv = conv_run (schedule env) (conv_begin c env) in
      if cv_main cv = Returned then Some (conv_finally cv (conv_aexit env)) else None)"

subsection \<open>The main loop\<close>

record handler_env =
  idle_part :: idle_env
  connecting_part :: connecting_env
  conversation_part :: conversation_env

text \<open>
  \<open>while self._running\<close>: one handler per element of the list. \<open>None\<close>: a handler does
  not return on what it is given, or the list is used up while the loop goes on.
\<close>

fun main_loop :: "RobotController \<Rightarrow> handler_env list \<Rightarrow> (exn option \<times> RobotController) option" where
  "main_loop c [] = (if \<not> running c \<or> state c = SHUTTING_DOWN then Some (None, c) else None)"
| "main_loop c (env # envs) =
     (if \<not> running c then Some (None, c)
      else case state c of
             SHUTTING_DOWN \<Rightarrow> Some (None, c)
           | IDLE \<Rightarrow>
               (case run_idle c (idle_part env) of
                  None \<Rightarrow> None
                | Some (Some e, c1) \<Rightarrow> Some (Some e, c1)
                | Some (None, c1) \<Rightarrow> main_loop c1 envs)
           | CONNECTING \<Rightarrow>
               (case run_connecting c (connecting_part env) of
                  (Some e, c1) \<Rightarrow> Some (Some e, c1)
                | (None, c1) \<Rightarrow> main_loop c1 envs)
           | CONVERSATION \<Rightarrow>
               (case run_conversation c (conversation_part env) of
                  None \<Rightarrow> None
                | Some (Some e, c1) \<Rightarrow> Some (Some e, c1)
                | Some (None, c1) \<Rightarrow> main_loop c1 envs))"

text \<open>
  \<open>start\<close>: the flags, the loop, and the \<open>finally\<close> block, which sets the state
  before it cleans up. A \<open>CancelledError\<close> from the loop is caught; any other
  exception goes on after the \<open>finally\<close> block.
\<close>

definition finish_start :: "exn option \<Rightarrow> RobotController \<Rightarrow> exn option \<Rightarrow> exn option \<times> RobotController" where
  "finish_start raised c aexit =
     (case cleanup (c\<lparr>state := SHUTTING_DOWN\<rparr>) aexit of
        (Some e, c1) \<Rightarrow> (Some e, c1)
      | (None, c1) \<Rightarrow>
          (case raised of
             None \<Rightarrow> (None, c1)
           | Some e \<Rightarrow> if exn_cls e = CancelledError then (None, c1) else (Some e, c1)))"

definition start ::
  "RobotController \<Rightarrow> handler_env list \<Rightarrow> exn option \<Rightarrow> (exn option \<times> RobotController) option" where
  "start c envs aexit =
     (case main_loop (c\<lparr>running := True, stop_event := Some False, state := IDLE\<rparr>) envs of
        None \<Rightarrow> None
      | Some (raised, c1) \<Rightarrow> Some (finish_start raised c1 aexit))"

section \<open>A concrete configuration\<close>

text \<open>
  The settings of the test suite (\<open>tests/test_controller.py\<close>) with one personality,
  closed stub devices, no display and no tools; used to run the model on concrete
  inputs.
\<close>

definition demo_settings :: Settings where
  "demo_settings =
     \<lparr>gemini_api_key = ''test-key'', gemini_model = ''test-model'',
      input_sample_rate = 16000, output_sample_rate = 24000, audio_chunk_size = 1024,
      default_personality = ''friendly'', settings_conversation_timeout = 30\<rparr>"

definition demo_personality :: PersonalityConfig where
  "demo_personality =
     \<lparr>pers_name = ''Friendly'', pers_voice = ''Puck'', pers_system_prompt = ''Be kind.'',
      pers_description = [], conversation_timeout_seconds = 30,
      pers_vad_sensitivity = ''MEDIUM''\<rparr>"

definition demo_mic :: AudioInput where
  "demo_mic = \<lparr>in_open = False, in_sample_rate = 16000, in_chunk_size = 1024\<rparr>"

definition demo_speaker :: AudioOutput where
  "demo_speaker = \<lparr>out_open = False, out_sample_rate = 24000, written = []\<rparr>"

definition demo_controller :: RobotController where
  "demo_controller =
     RobotController_init demo_settings demo_mic demo_speaker None
       [(''friendly'', demo_personality)] ToolServer_init"

text \<open>
  The controller at the point where \<open>_run_idle\<close> starts to wait: the status is shown
  and the detector listens.
\<close>

definition idle_listening :: "RobotController \<Rightarrow> RobotController" where
  "idle_listening c =
     (let c1 = status c ''listening'';
          (e, d, mic) = detector_start (wake_detector c1) (audio_input c1) None
      in c1\<lparr>wake_detector := d, audio_input := mic\<rparr>)"

definition no_stop_call :: "ext list \<Rightarrow> bool" where
  "no_stop_call es = list_all (\<lambda>e. e = WakeWord) es"

text \<open>
  Since the wait began, either \<open>stop()\<close> has been called (the stop event is set and
  the controller is not running) or the running flag is what it was.
\<close>

definition stopped_or :: "bool \<Rightarrow> RobotController \<Rightarrow> bool" where
  "stopped_or r c = (stop_event c \<noteq> None \<and> (if stop_event c = Some True then \<not> running c else running c = r))"

text \<open>The concrete controller once \<open>start\<close> has set its flags.\<close>

definition demo_started :: RobotController where
  "demo_started = demo_controller\<lparr>running := True, stop_event := Some False\<rparr>"

text \<open>
  While the controller is running, its session is there, connected, and has its SDK
  connection.
\<close>

definition session_live :: "RobotController \<Rightarrow> bool" where
  "session_live c =
     (running c \<longrightarrow> (case session c of None \<Rightarrow> False | Some s \<Rightarrow> connected s \<and> has_session s))"



section \<open>Notions for the properties of the playback pipeline\<close>

text \<open>
  The chunks in a queue, the chunks a suspended drain task holds in its local
  variables and has not written yet, and whether a write it waits for has succeeded.
\<close>

fun somes :: "'a option list \<Rightarrow> 'a list" where
  "somes [] = []"
| "somes (None # q) = somes q"
| "somes (Some x # q) = x # somes q"

fun held :: "drain_pc \<Rightarrow> bytes list" where
  "held (Phase1 k initial) = initial"
| "held (Phase2 rest ok) = rest"
| "held c = []"

fun writes_ok :: "drain_pc \<Rightarrow> bool" where
  "writes_ok (Phase2 rest ok) = ok"
| "writes_ok (Phase3Write ok) = ok"
| "writes_ok c = True"

definition only_resumes :: "pb_action list \<Rightarrow> bool" where
  "only_resumes acts = list_all (\<lambda>a. case a of Resume i timed_out \<Rightarrow> True | _ \<Rightarrow> False) acts"

text \<open>
  The state of a stream that was created, given the chunk \<open>d\<close> while the speaker's log
  was \<open>w0\<close>, and then only drained (and flushed, if \<open>flushed\<close>): there is one drain
  task, it is the stream's task and is not cancelled, the speaker is open, a sentinel
  is in the queue only after a flush and then as its last item, and the log, the chunks the
  task holds and the chunks in the queue make up \<open>w0\<close> followed by \<open>d\<close>.
\<close>

definition sentinel_last :: "bool \<Rightarrow> 'a option list \<Rightarrow> bool" where
  "sentinel_last flushed q = (if flushed then None \<notin> set (butlast q) else None \<notin> set q)"

definition one_chunk :: "bytes list \<Rightarrow> bytes \<Rightarrow> bool \<Rightarrow> AudioPlaybackStream \<Rightarrow> bool" where
  "one_chunk w0 d flushed p =
     (\<exists>t. tasks p = [t] \<and> \<not> cancel_requested t \<and> pb_task p = Some 0 \<and>
          out_open (pb_audio_output p) \<and>
          sentinel_last flushed (queue p) \<and>
          (pc t \<noteq> Finished \<longrightarrow> playing p) \<and>
          (pc t = Finished \<longrightarrow> somes (queue p) = []) \<and>
          writes_ok (pc t) \<and>
          written (pb_audio_output p) @ held (pc t) @ somes (queue p) = w0 @ [d])"

text \<open>
  A bound on the number of turns a drain task still needs when every wait on an empty
  queue times out.
\<close>

fun rank :: "drain_pc \<Rightarrow> bytes option list \<Rightarrow> nat" where
  "rank Finished q = 0"
| "rank Phase3Get q = 1 + 2 * length (somes q) + length q"
| "rank (Phase3Write ok) q = 2 + 2 * length (somes q) + length q"
| "rank (Phase2 rest ok) q = 2 + length rest + 2 * length (somes q) + length q"
| "rank (Phase1 k initial) q = 2 + length initial + 2 * length (somes q) + length q"
| "rank NotStarted q = 3 + 2 * length (somes q) + length q"

definition pb_rank :: "AudioPlaybackStream \<Rightarrow> nat" where
  "pb_rank p = (case tasks p of [t] \<Rightarrow> rank (pc t) (queue p) | _ \<Rightarrow> 0)"

section \<open>Notions for the properties of a conversation\<close>

text \<open>
  A conversation of the concrete controller on a connected session. The session
  delivers one audio chunk and \<open>turn_complete\<close> and then nothing more.
\<close>

definition demo_in_conversation :: RobotController where
  "demo_in_conversation =
     demo_started\<lparr>state := CONVERSATION,
        session := Some (snd (connect (GeminiSession_init ''test-key''
                    (session_config demo_started demo_personality)) None))\<rparr>"

definition audio_message :: "bytes \<Rightarrow> ServerMessage" where
  "audio_message d = (ServerMessage_init ''audio'')\<lparr>msg_audio_data := d\<rparr>"

text \<open>
  The reply is still being played, and \<open>flush\<close> still waits for the drain task,
  when the monitor finds thirty seconds of silence (clock reading 33, the last activity
  being \<open>turn_complete\<close> at 2).
\<close>

definition long_reply_schedule :: "conv_event list" where
  "long_reply_schedule =
     [Recv 1 None, Recv 2 None, Drain 0 False, Drain 0 False, Drain 0 False,
      Poll 33, Drain 0 False, Recv 34 None]"

definition long_reply_env :: "conv_event list \<Rightarrow> conversation_env" where
  "long_reply_env later =
     \<lparr>started_at = 0,
      env_stream = [audio_message [1, 2, 3, 4], ServerMessage_init ''turn_complete''],
      env_stream_end = Blocks,
      schedule = long_reply_schedule @ later,
      conv_aexit = None\<rparr>"

text \<open>
  \<open>_run_conversation\<close> waits for the receive task, which waits for a message of a
  session that delivers none.
\<close>

definition waits_for_silent_session :: "conversation \<Rightarrow> bool" where
  "waits_for_silent_session cv =
     (cv_main cv = AwaitingReceive \<and> cv_receive cv = RWait \<and> cv_stream cv = [] \<and>
      cv_stream_end cv = Blocks)"

definition no_ext :: "conv_event list \<Rightarrow> bool" where
  "no_ext es = list_all (\<lambda>e. case e of Ext x \<Rightarrow> False | _ \<Rightarrow> True) es"

section \<open>Notions for the properties of an interruption\<close>

text \<open>
  What a drain task may still write of the chunks it holds: nothing once its
  cancellation is requested. \<open>live_held\<close> collects this over all drain tasks of a
  stream, as a multiset.
\<close>

definition task_holds :: "drain_task \<Rightarrow> bytes multiset" where
  "task_holds t = (if cancel_requested t then {#} else mset (held (pc t)))"

definition live_held :: "AudioPlaybackStream \<Rightarrow> bytes multiset" where
  "live_held p = (\<Sum>i<length (tasks p). task_holds (tasks p ! i))"

text \<open>
  Every chunk that is in the speaker's log, held by a drain task that may still write
  it, or in the queue is one of \<open>base\<close> or of \<open>given\<close> (counted with multiplicity).
\<close>

definition accounted :: "bytes multiset \<Rightarrow> bytes multiset \<Rightarrow> AudioPlaybackStream \<Rightarrow> bool" where
  "accounted base given p =
     (mset (written (pb_audio_output p)) + live_held p + mset (somes (queue p)) \<subseteq># base + given)"

text \<open>
  Every drain task that has not finished is the one the stream refers to, it is not
  cancelled, and the stream is playing.
\<close>

definition sole_task :: "AudioPlaybackStream \<Rightarrow> bool" where
  "sole_task p =
     (\<forall>i<length (tasks p).
        pc (tasks p ! i) = Finished \<or>
        (pb_task p = Some i \<and> playing p \<and> \<not> cancel_requested (tasks p ! i)))"

definition no_stop :: "pb_action list \<Rightarrow> bool" where
  "no_stop acts = list_all (\<lambda>a. a \<noteq> Stop) acts"

text \<open>
  Two interruptions. The first drain task is cancelled while it waits for the queue;
  the next chunk arrives before that task has run again, so that its \<open>finally\<close> block
  resets \<open>_playing\<close> under the second task. The third chunk therefore starts a third
  task and the second is no longer referred to; it holds the second chunk. The second
  interruption cancels the third task only.
\<close>

definition until_second_stop :: "pb_action list" where
  "until_second_stop =
     [PlayChunk [1], Resume 0 False, Resume 0 False, Stop,
      PlayChunk [2], Resume 0 False, Resume 1 False, Resume 1 False,
      PlayChunk [3], Stop]"

definition after_second_stop :: "pb_action list" where
  "after_second_stop = [PlayChunk [4], Resume 1 False, Resume 1 True]"

text \<open>
  After the second interruption a fourth chunk arrives and starts a fourth task. Either
  the second task, which has waited longer, takes the chunk and its next wait times
  out (above), or the fourth task takes it and the wait of the second task times out.
\<close>

definition after_second_stop_taken :: "pb_action list" where
  "after_second_stop_taken = [PlayChunk [4], Resume 3 False, Resume 3 False, Resume 1 True]"

text \<open>
  The same run in a conversation: the session delivers the four chunks and the two
  \<open>interrupted\<close> messages, the second chunk right after the first interruption.
\<close>

definition two_interruptions_env :: conversation_env where
  "two_interruptions_env =
     \<lparr>started_at = 0,
      env_stream = [audio_message [1], ServerMessage_init ''interrupted'',
                    audio_message [2], audio_message [3], ServerMessage_init ''interrupted'',
                    audio_message [4]],
      env_stream_end = Blocks,
      schedule = [Recv 1 None, Drain 0 False, Drain 0 False, Recv 2 None, Recv 2 None,
                  Drain 0 False, Drain 1 False, Drain 1 False,
                  Recv (5 / 2) None, Recv (5 / 2) None, Recv (5 / 2) None,
                  Drain 1 False, Drain 1 True],
      conv_aexit = None\<rparr>"

text \<open>
  One turn of drain task \<open>i\<close> changes no other task, no cancellation request and not
  the stream's task; a finished task changes nothing; and \<open>_playing\<close> is reset only by
  a task that finishes.
\<close>

definition turn_of :: "nat \<Rightarrow> AudioPlaybackStream \<Rightarrow> AudioPlaybackStream \<Rightarrow> bool" where
  "turn_of i p p' =
     (length (tasks p') = length (tasks p) \<and>
      (\<forall>j. j \<noteq> i \<longrightarrow> tasks p' ! j = tasks p ! j) \<and>
      cancel_requested (tasks p' ! i) = cancel_requested (tasks p ! i) \<and>
      pb_task p' = pb_task p \<and>
      (pc (tasks p ! i) = Finished \<longrightarrow> p' = p) \<and>
      (playing p \<longrightarrow> playing p' \<or> pc (tasks p' ! i) = Finished))"

text \<open>
  One turn of drain task \<open>i\<close> moves chunks from the queue and from what the task has
  available to the task and to the speaker's log, and makes none.
\<close>

definition drains :: "nat \<Rightarrow> bytes multiset \<Rightarrow> AudioPlaybackStream \<Rightarrow> AudioPlaybackStream \<Rightarrow> bool" where
  "drains i avail p p' =
     (\<exists>t'. tasks p' = (tasks p)[i := t'] \<and>
           mset (written (pb_audio_output p')) + task_holds t' + mset (somes (queue p'))
             \<subseteq># mset (written (pb_audio_output p)) + avail + mset (somes (queue p)))"

fun given_by :: "pb_action \<Rightarrow> bytes multiset" where
  "given_by (PlayChunk c) = {#c#}"
| "given_by a = {#}"

section \<open>Properties of the tool server\<close>

lemma update_key_name:
  "list_all (\<lambda>(k, t). tool_name t = k) tools \<Longrightarrow>
   list_all (\<lambda>(k, t). tool_name t = k) (AList.update (tool_name tool) tool tools)"
  by (induction tools) auto

lemma registry_ok_register: "registry_ok tools \<Longrightarrow> registry_ok (register_tool tools tool)"
  by (simp add: registry_ok_def register_tool_def distinct_update update_key_name)

lemma registry_ok_fold:
  "registry_ok s \<Longrightarrow> registry_ok (fold (\<lambda>t s. register_tool s t) ts s)"
  by (induction ts arbitrary: s) (simp_all add: registry_ok_register)

lemma registry_ok_registered: "registry_ok (registered ts)"
  unfolding registered_def
  by (rule registry_ok_fold) (simp add: registry_ok_def ToolServer_init_def)

lemma filter_update_name:
  "distinct (map fst tools) \<Longrightarrow> list_all (\<lambda>(k, t). tool_name t = k) tools \<Longrightarrow>
   filter (\<lambda>(k, t). tool_name t = tool_name tool) (AList.update (tool_name tool) tool tools)
     = [(tool_name tool, tool)]"
proof (induction tools)
  case Nil
  then show ?case by simp
next
  case (Cons p ps)
  obtain k t where p: "p = (k, t)" by (cases p)
  show ?case
  proof (cases "k = tool_name tool")
    case True
    have "\<forall>(k', t') \<in> set ps. tool_name t' \<noteq> tool_name tool"
      using Cons.prems p True by (fastforce simp: list_all_iff image_iff)
    then have "filter (\<lambda>(k, t). tool_name t = tool_name tool) ps = []"
      by (auto simp: filter_empty_conv)
    with p True show ?thesis by simp
  next
    case False
    with Cons p show ?thesis by auto
  qed
qed

lemma declared_register:
  "declared (register_tool tools tool) =
     map (\<lambda>(k, t). declaration_of t) (AList.update (tool_name tool) tool tools)"
  by (cases tools) (auto simp: declared_def get_tool_declarations_def register_tool_def)

lemma decl_name_declaration_of: "decl_name (declaration_of t) = tool_name t"
  by (simp add: declaration_of_def)

lemma filter_declared_register:
  assumes "registry_ok tools"
  shows "filter (\<lambda>d. decl_name d = tool_name tool) (declared (register_tool tools tool))
           = [declaration_of tool]"
proof -
  have "filter (\<lambda>d. decl_name d = tool_name tool)
          (map (\<lambda>(k, t). declaration_of t) (AList.update (tool_name tool) tool tools))
        = map (\<lambda>(k, t). declaration_of t)
            (filter (\<lambda>(k, t). tool_name t = tool_name tool)
               (AList.update (tool_name tool) tool tools))"
    by (simp add: filter_map comp_def case_prod_unfold decl_name_declaration_of)
  also have "\<dots> = [declaration_of tool]"
    using assms by (simp add: filter_update_name registry_ok_def)
  finally show ?thesis by (simp add: declared_register)
qed

lemma required_set_declaration_of:
  "required_set (declaration_of tool) =
     {n. \<exists>p. (n, p) \<in> set (tool_parameters tool) \<and> param_required p}"
  by (auto simp: required_set_def declaration_of_def image_iff)

text \<open>
  Claim C8. Round trip: after any sequence of registrations, registering a tool and
  asking for the declaration list gives exactly one declaration under the tool's name,
  and it carries the tool's name, its description and, as the set of required
  parameter names, exactly the names of the parameters registered as required (a tool
  without parameters has no schema, hence no required name).
\<close>

theorem register_then_declare_roundtrip:
  "\<exists>d. filter (\<lambda>d. decl_name d = tool_name tool)
          (declared (register_tool (registered ts) tool)) = [d] \<and>
        decl_name d = tool_name tool \<and>
        decl_description d = tool_description tool \<and>
        required_set d = {n. \<exists>p. (n, p) \<in> set (tool_parameters tool) \<and> param_required p}"
  using filter_declared_register [OF registry_ok_registered, of tool ts]
  by (simp add: required_set_declaration_of decl_name_declaration_of)
     (simp add: declaration_of_def)

section \<open>Properties of the capture pipeline\<close>

lemma capture_stop_closed: "\<not> in_open (cap_audio_input (capture_stop c))"
  by (simp add: capture_stop_def in_close_stream_def Let_def)

lemma capture_start_keeps_open:
  "in_open (cap_audio_input c) \<Longrightarrow> cap_audio_input (capture_start c) = cap_audio_input c"
  by (simp add: capture_start_def Let_def)

text \<open>
  Claim C9, as stated, fails: a microphone that was open before \<open>start\<close> is closed by
  \<open>stop\<close>. The stream keeps no record of who opened the microphone.
\<close>

theorem capture_stop_closes_foreign_mic:
  "in_open \<lparr>in_open = True, in_sample_rate = 16000, in_chunk_size = 1024\<rparr> \<and>
   \<not> in_open (cap_audio_input (capture_stop (capture_start
        (AudioCaptureStream_init
           \<lparr>in_open = True, in_sample_rate = 16000, in_chunk_size = 1024\<rparr>
           (Some (GeminiSession_init ''k''
              \<lparr>cfg_model = ''m'', cfg_voice = ''v'', cfg_system_prompt = ''p'',
               cfg_tools = [], cfg_vad_sensitivity = ''MEDIUM''\<rparr>))
           16000 1024))))"
  by (simp add: capture_stop_closed)

text \<open>
  Claim C9, amended. \<open>start\<close> opens the microphone only when it is closed, and leaves
  an open one as it is; a stream not yet streaming has an open microphone after
  \<open>start\<close>; \<open>stop\<close> closes the microphone whenever it is open, whoever
  opened it, whatever the capture loop did in between: after \<open>stop\<close> the microphone
  is closed, streaming is off and the task is gone.
\<close>

theorem capture_stop_always_closes:
  "(in_open (cap_audio_input c) \<longrightarrow> cap_audio_input (capture_start c) = cap_audio_input c) \<and>
   (\<not> streaming c \<longrightarrow> in_open (cap_audio_input (capture_start c))) \<and>
   \<not> in_open (cap_audio_input (capture_stop (capture_loop (capture_start c) heard))) \<and>
   \<not> streaming (capture_stop (capture_loop (capture_start c) heard)) \<and>
   \<not> cap_task (capture_stop (capture_loop (capture_start c) heard))"
  by (simp add: capture_stop_closed capture_start_keeps_open)
     (simp add: capture_stop_def capture_start_def in_open_stream_def Let_def)

theorem capture_stop_always_closes_witness:
  "\<not> in_open (cap_audio_input (capture_stop (capture_loop (capture_start
        (AudioCaptureStream_init
           \<lparr>in_open = True, in_sample_rate = 16000, in_chunk_size = 1024\<rparr>
           (Some (GeminiSession_init ''k''
              \<lparr>cfg_model = ''m'', cfg_voice = ''v'', cfg_system_prompt = ''p'',
               cfg_tools = [], cfg_vad_sensitivity = ''MEDIUM''\<rparr>))
           16000 1024)) [[1, 2], [3, 4]])))"
  using capture_stop_always_closes
    [of "AudioCaptureStream_init
           \<lparr>in_open = True, in_sample_rate = 16000, in_chunk_size = 1024\<rparr>
           (Some (GeminiSession_init ''k''
              \<lparr>cfg_model = ''m'', cfg_voice = ''v'', cfg_system_prompt = ''p'',
               cfg_tools = [], cfg_vad_sensitivity = ''MEDIUM''\<rparr>))
           16000 1024" "[[1, 2], [3, 4]]"]
  by simp

section \<open>Properties of the remote session client\<close>

lemma fresh_session_not_connected: "\<not> is_connected (GeminiSession_init key cfg)"
  by (simp add: is_connected_def GeminiSession_init_def)

lemma closed_session_not_connected:
  "\<not> is_connected (snd (close (snd (connect s enter)) aexit))"
  by (simp add: is_connected_def close_def connect_def Let_def split: option.splits)

text \<open>
  Claim C10. On a session that is not connected, \<open>send_audio\<close> and
  \<open>send_tool_response\<close> raise \<open>RuntimeError\<close> and send nothing, and iterating
  \<open>receive\<close> raises \<open>RuntimeError\<close> before any message is produced. A session that was
  never connected and a session that has been closed are both not connected.
\<close>

theorem not_connected_raises:
  "\<not> is_connected s \<Longrightarrow>
     send_audio s chunk sdk = (Some not_connected_error, s) \<and>
     send_tool_response s call_id result sdk = (Some not_connected_error, s) \<and>
     receive s stream fin = Inl not_connected_error \<and>
     exn_cls not_connected_error = RuntimeError"
  by (simp add: is_connected_def send_audio_def send_tool_response_def receive_def
      not_connected_error_def)

theorem not_connected_raises_witness:
  "(let s = GeminiSession_init ''key''
              \<lparr>cfg_model = ''m'', cfg_voice = ''Kore'', cfg_system_prompt = ''p'',
               cfg_tools = [], cfg_vad_sensitivity = ''MEDIUM''\<rparr>;
        t = snd (close (snd (connect s None)) None)
    in \<not> is_connected s \<and> \<not> is_connected t \<and>
       fst (send_audio s [1, 2, 3] None) = Some (Exn RuntimeError ''Gemini session is not connected.'') \<and>
       fst (send_tool_response t ''c1'' [(''status'', PStr ''ok'')] None)
         = Some (Exn RuntimeError ''Gemini session is not connected.'') \<and>
       receive t [] None = Inl (Exn RuntimeError ''Gemini session is not connected.''))"
proof -
  define s where "s = GeminiSession_init ''key''
              \<lparr>cfg_model = ''m'', cfg_voice = ''Kore'', cfg_system_prompt = ''p'',
               cfg_tools = [], cfg_vad_sensitivity = ''MEDIUM''\<rparr>"
  define t where "t = snd (close (snd (connect s None)) None)"
  have s: "\<not> is_connected s"
    unfolding s_def by (rule fresh_session_not_connected)
  have t: "\<not> is_connected t"
    unfolding t_def by (rule closed_session_not_connected)
  show ?thesis
    using s t not_connected_raises [OF s, where chunk = "[1, 2, 3]" and sdk = None]
      not_connected_raises [OF t, where call_id = "''c1''"
        and result = "[(''status'', PStr ''ok'')]" and sdk = None and stream = "[]" and fin = None]
    by (simp add: s_def [symmetric] t_def [symmetric] Let_def not_connected_error_def)
qed

section \<open>Properties of the controller: CONNECTING\<close>

lemma apply_ext_state: "state (snd (apply_ext e wc)) = state (snd wc)"
  by (cases e; cases wc)
     (auto simp: stop_def close_session_def wake_detector_stop_def Let_def
           split: option.splits prod.splits)

lemma apply_exts_state: "state (snd (apply_exts es wc)) = state (snd wc)"
  unfolding apply_exts_def
  by (induction es arbitrary: wc) (simp_all add: apply_ext_state)

lemma apply_ext_session_some:
  "session (snd wc) \<noteq> None \<Longrightarrow> session (snd (apply_ext e wc)) \<noteq> None"
  by (cases e; cases wc)
     (auto simp: stop_def close_session_def wake_detector_stop_def Let_def
           split: option.splits prod.splits)

lemma apply_exts_session_some:
  "session (snd wc) \<noteq> None \<Longrightarrow> session (snd (apply_exts es wc)) \<noteq> None"
  unfolding apply_exts_def
  by (induction es arbitrary: wc) (simp_all add: apply_ext_session_some del: not_None_eq)

lemma resolve_personality_status:
  "resolve_personality (status c s) = resolve_personality c"
  by (simp add: resolve_personality_def status_def split: option.splits sum.splits)

lemma state_status: "state (status c s) = state c"
  by (simp add: status_def split: option.splits)

lemma open_session_cases:
  assumes "state c = CONNECTING"
  shows "(enter_outcome env = None \<longrightarrow>
            fst (open_session c p env) = None \<and> state (snd (open_session c p env)) = CONVERSATION \<and>
            session (snd (open_session c p env)) \<noteq> None) \<and>
         (\<forall>e. enter_outcome env = Some e \<and> is_Exception e \<longrightarrow>
            fst (open_session c p env) = None \<and> state (snd (open_session c p env)) = IDLE \<and>
            session (snd (open_session c p env)) = None) \<and>
         (\<forall>e. enter_outcome env = Some e \<and> \<not> is_Exception e \<longrightarrow>
            fst (open_session c p env) = Some e \<and> state (snd (open_session c p env)) = CONNECTING)"
proof -
  define c1 where "c1 = c\<lparr>session := Some (GeminiSession_init (gemini_api_key (settings c)) (session_config c p)),
                 conversation_timeout := real_of_int (conversation_timeout_seconds p)\<rparr>"
  define c2 where "c2 = snd (apply_exts (during_connect env) (False, c1))"
  have s2: "session c2 \<noteq> None"
    unfolding c2_def by (rule apply_exts_session_some) (simp add: c1_def)
  have st2: "state c2 = CONNECTING"
    unfolding c2_def using assms by (simp add: apply_exts_state c1_def)
  from s2 obtain s where s: "session c2 = Some s" by auto
  have os: "open_session c p env =
      (case connect s (enter_outcome env) of
                (None, s3) \<Rightarrow> (None, c2\<lparr>session := Some s3, state := CONVERSATION\<rparr>)
              | (Some e, s3) \<Rightarrow>
                  if is_Exception e then (None, c2\<lparr>session := None, state := IDLE\<rparr>)
                  else (Some e, c2\<lparr>session := Some s3\<rparr>))"
    using s unfolding c2_def c1_def by (simp add: open_session_def Let_def)
  show ?thesis
    using st2 by (auto simp: os connect_def Let_def)
qed

text \<open>
  Claim C4. When \<open>_run_connecting\<close> attempts a connection (a personality is
  resolved), the state after it is CONVERSATION exactly when the session open succeeds,
  and IDLE exactly when the open fails with an exception that \<open>except Exception\<close>
  catches; on failure the stored session handle is \<open>None\<close> and the handler returns
  normally. (A cancellation of the handler while it connects is neither: it passes
  through with the state unchanged.)
\<close>

theorem connecting_outcome:
  assumes "state c = CONNECTING" and "resolve_personality c = Some p"
  shows "(state (snd (run_connecting c env)) = CONVERSATION \<longleftrightarrow> enter_outcome env = None) \<and>
         (state (snd (run_connecting c env)) = IDLE \<longleftrightarrow>
            (\<exists>e. enter_outcome env = Some e \<and> is_Exception e)) \<and>
         ((\<exists>e. enter_outcome env = Some e \<and> is_Exception e) \<longrightarrow>
            session (snd (run_connecting c env)) = None \<and> fst (run_connecting c env) = None)"
proof -
  have rc: "run_connecting c env = open_session (status c ''connecting'') p env"
    using assms(2) by (simp add: run_connecting_def Let_def resolve_personality_status)
  have st: "state (status c ''connecting'') = CONNECTING"
    using assms(1) by (simp add: state_status)
  show ?thesis
  proof (cases "enter_outcome env")
    case None
    then show ?thesis using open_session_cases [OF st, of env p] by (simp add: rc)
  next
    case (Some e)
    then show ?thesis using open_session_cases [OF st, of env p]
      by (cases "is_Exception e") (auto simp: rc)
  qed
qed

lemma demo_resolves:
  "resolve_personality (demo_controller\<lparr>state := CONNECTING\<rparr>) = Some demo_personality"
  by (simp add: resolve_personality_def get_personality_def demo_controller_def
      RobotController_init_def demo_settings_def lower_def lower_char_def Let_def)

theorem connecting_outcome_witness:
  "state (demo_controller\<lparr>state := CONNECTING\<rparr>) = CONNECTING \<and>
   resolve_personality (demo_controller\<lparr>state := CONNECTING\<rparr>) = Some demo_personality \<and>
   state (snd (run_connecting (demo_controller\<lparr>state := CONNECTING\<rparr>)
                 \<lparr>during_connect = [], enter_outcome = None\<rparr>)) = CONVERSATION \<and>
   state (snd (run_connecting (demo_controller\<lparr>state := CONNECTING\<rparr>)
                 \<lparr>during_connect = [], enter_outcome = Some (Exn ConnectionError ''refused'')\<rparr>)) = IDLE \<and>
   session (snd (run_connecting (demo_controller\<lparr>state := CONNECTING\<rparr>)
                 \<lparr>during_connect = [], enter_outcome = Some (Exn ConnectionError ''refused'')\<rparr>)) = None"
proof -
  have st: "state (demo_controller\<lparr>state := CONNECTING\<rparr>) = CONNECTING" by simp
  show ?thesis
    using connecting_outcome [OF st demo_resolves, of "\<lparr>during_connect = [], enter_outcome = None\<rparr>"]
      connecting_outcome [OF st demo_resolves,
        of "\<lparr>during_connect = [], enter_outcome = Some (Exn ConnectionError ''refused'')\<rparr>"]
    by (simp add: demo_resolves is_Exception_def)
qed

section \<open>Properties of the controller: IDLE\<close>

lemma stop_fields:
  "state (snd (stop c a)) = state c"
  "\<not> running (snd (stop c a))"
  "stop_event (snd (stop c a)) = (case stop_event c of None \<Rightarrow> None | Some b \<Rightarrow> Some True)"
  by (auto simp: stop_def close_session_def wake_detector_stop_def Let_def
           split: option.splits prod.splits)

lemma wake_detector_stop_fields:
  "state (wake_detector_stop c) = state c"
  "running (wake_detector_stop c) = running c"
  "stop_event (wake_detector_stop c) = stop_event c"
  by (auto simp: wake_detector_stop_def Let_def split: prod.splits)

lemma apply_ext_stopped_or:
  "stopped_or r (snd wc) \<Longrightarrow> stopped_or r (snd (apply_ext e wc))"
  by (cases e; cases wc) (auto simp: stopped_or_def stop_fields split: option.splits)

lemma apply_exts_stopped_or:
  "stopped_or r (snd wc) \<Longrightarrow> stopped_or r (snd (apply_exts es wc))"
  unfolding apply_exts_def
  by (induction es arbitrary: wc) (simp_all add: apply_ext_stopped_or)

lemma apply_ext_not_running:
  "\<not> running (snd wc) \<Longrightarrow> \<not> running (snd (apply_ext e wc))"
  by (cases e; cases wc) (auto simp: stop_fields)

lemma apply_exts_not_running:
  "\<not> running (snd wc) \<Longrightarrow> \<not> running (snd (apply_exts es wc))"
  unfolding apply_exts_def
  by (induction es arbitrary: wc) (simp_all add: apply_ext_not_running)

lemma apply_exts_no_stop:
  "no_stop_call es \<Longrightarrow> snd (apply_exts es wc) = snd wc"
  unfolding apply_exts_def no_stop_call_def
  by (induction es arbitrary: wc) (auto simp: split_beta)

lemma race_result:
  assumes "race wake c ts = Some (ev, st, c1)" and "stopped_or r c"
  shows "state c1 = state c \<and> stopped_or r c1 \<and> st = (stop_event c1 = Some True) \<and> (ev \<or> st)"
  using assms
proof (induction ts arbitrary: wake c)
  case Nil
  then show ?case by (auto split: if_splits)
next
  case (Cons t ts)
  show ?case
  proof (cases "wake \<or> stop_event c = Some True")
    case True
    with Cons.prems show ?thesis by auto
  next
    case False
    with Cons.prems have
      r: "race (fst (apply_exts t (wake, c))) (snd (apply_exts t (wake, c))) ts = Some (ev, st, c1)"
      by simp
    have "stopped_or r (snd (apply_exts t (wake, c)))"
      using Cons.prems(2) by (simp add: apply_exts_stopped_or)
    from Cons.IH [OF r this] show ?thesis by (auto simp: apply_exts_state)
  qed
qed

lemma idle_listening_fields:
  "state (idle_listening c) = state c"
  "running (idle_listening c) = running c"
  "stop_event (idle_listening c) = stop_event c"
  by (auto simp: idle_listening_def status_def detector_start_def Let_def
           split: option.splits prod.splits)

lemma run_idle_unfold:
  assumes "run_idle c env = Some (None, c')"
  shows "\<exists>woke c3. wait_for_event_or_stop False (idle_listening c) env = Some (Inr woke, c3) \<and>
            c' = (if woke \<and> running (wake_detector_stop c3)
                  then (wake_detector_stop c3)\<lparr>state := CONNECTING\<rparr> else wake_detector_stop c3)"
proof -
  define c1 where "c1 = status c ''listening''"
  obtain e d mic where ds: "detector_start (wake_detector c1) (audio_input c1) (load_model env) = (e, d, mic)"
    by (cases "detector_start (wake_detector c1) (audio_input c1) (load_model env)")
  have e: "e = None"
    using assms ds unfolding run_idle_def Let_def c1_def [symmetric]
    by (cases e) simp_all
  have lm: "detector_start (wake_detector c1) (audio_input c1) None = (None, d, mic)"
    using ds e by (auto simp: detector_start_def split: if_splits option.splits)
  have il: "idle_listening c = c1\<lparr>wake_detector := d, audio_input := mic\<rparr>"
    using lm unfolding idle_listening_def Let_def c1_def [symmetric] by simp
  have ri: "run_idle c env =
      (case wait_for_event_or_stop False (idle_listening c) env of
            None \<Rightarrow> None
          | Some (Inl e, c3) \<Rightarrow> Some (Some e, c3)
          | Some (Inr woke, c3) \<Rightarrow>
              let c4 = wake_detector_stop c3 in
              Some (None, if woke \<and> running c4 then c4\<lparr>state := CONNECTING\<rparr> else c4))"
    using ds e unfolding il run_idle_def Let_def c1_def [symmetric] by simp
  show ?thesis
  proof (cases "wait_for_event_or_stop False (idle_listening c) env")
    case None
    with assms ri show ?thesis by simp
  next
    case (Some r)
    obtain x c3 where r: "r = (x, c3)" by (cases r)
    show ?thesis
    proof (cases x)
      case (Inl e)
      with assms ri Some r show ?thesis by simp
    next
      case (Inr woke)
      with assms ri Some r show ?thesis by (simp add: Let_def)
    qed
  qed
qed


text \<open>
  Claim C1. When \<open>_run_idle\<close>, entered in IDLE, returns, the race of the wake event
  against the stop signal has been decided (\<open>ev\<close>: the wake task is among the done
  tasks, \<open>st\<close>: the stop task is), and the state is CONNECTING exactly when the wake
  event won and the controller is still running; otherwise it is still IDLE. If the
  stop signal fired (first, or in the same turn as the wake word) the state remains
  IDLE; if the wake event fired first, the controller was running and no \<open>stop()\<close>
  arrives while the losing task is cancelled, the state is CONNECTING.
\<close>

theorem idle_transition:
  assumes "run_idle c env = Some (None, c')" and "state c = IDLE"
  shows "\<exists>ev st c1. race False (idle_listening c) (turns env) = Some (ev, st, c1) \<and>
           (state c' = CONNECTING \<longleftrightarrow> ev \<and> running c') \<and>
           (state c' \<noteq> CONNECTING \<longrightarrow> state c' = IDLE) \<and>
           (st \<longrightarrow> state c' = IDLE) \<and>
           (ev \<and> \<not> st \<and> running c \<and> no_stop_call (during_cancel env) \<longrightarrow> state c' = CONNECTING)"
proof -
  define c2 where "c2 = idle_listening c"
  from run_idle_unfold [OF assms(1)] obtain woke c3 where
    w: "wait_for_event_or_stop False c2 env = Some (Inr woke, c3)" and
    c': "c' = (if woke \<and> running (wake_detector_stop c3)
               then (wake_detector_stop c3)\<lparr>state := CONNECTING\<rparr> else wake_detector_stop c3)"
    unfolding c2_def by blast
  from w obtain b where b: "stop_event c2 = Some b"
    by (auto simp: wait_for_event_or_stop_def split: option.splits)
  from w b obtain ev st c1 where
    r: "race False c2 (turns env) = Some (ev, st, c1)" and
    woke: "woke = ev" and
    c3: "c3 = (if ev \<and> st then c1 else snd (apply_exts (during_cancel env) (ev, c1)))"
    by (auto simp: wait_for_event_or_stop_def split: option.splits if_splits)
  show ?thesis
  proof (cases "b")
    case True
    then have "race False c2 (turns env) = Some (False, True, c2)"
      using b by (cases "turns env") simp_all
    with r have "ev = False" "st = True" "c1 = c2" by simp_all
    then have "state c' = IDLE"
      using c' woke c3 assms(2)
      by (simp add: wake_detector_stop_fields apply_exts_state c2_def idle_listening_fields)
    note idle = this
    show ?thesis
      apply (rule exI [of _ False], rule exI [of _ True], rule exI [of _ c2])
      using idle r \<open>ev = False\<close> \<open>st = True\<close> \<open>c1 = c2\<close> unfolding c2_def by simp
  next
    case False
    then have so: "stopped_or (running c) c2"
      using b by (simp add: stopped_or_def c2_def idle_listening_fields)
    from race_result [OF r so] have
      s1: "state c1 = IDLE" and so1: "stopped_or (running c) c1" and
      st: "st = (stop_event c1 = Some True)" and any: "ev \<or> st"
      using assms(2) by (auto simp: c2_def idle_listening_fields)
    have s3: "state c3 = IDLE"
      using c3 s1 by (simp add: apply_exts_state)
    have run1: "st \<Longrightarrow> \<not> running c1"
      using so1 st by (simp add: stopped_or_def)
    have run3: "st \<Longrightarrow> \<not> running c3"
      using c3 run1 by (auto simp: apply_exts_not_running)
    have run3': "\<not> st \<Longrightarrow> no_stop_call (during_cancel env) \<Longrightarrow> running c3 = running c"
      using c3 so1 st by (auto simp: apply_exts_no_stop stopped_or_def)
    have A: "state c' = CONNECTING \<longleftrightarrow> ev \<and> running c'"
      using c' woke s3 by (auto simp: wake_detector_stop_fields)
    have B: "state c' \<noteq> CONNECTING \<longrightarrow> state c' = IDLE"
      using c' s3 by (auto simp: wake_detector_stop_fields)
    have C: "st \<longrightarrow> state c' = IDLE"
      using c' s3 run3 by (auto simp: wake_detector_stop_fields)
    have D: "ev \<and> \<not> st \<and> running c \<and> no_stop_call (during_cancel env) \<longrightarrow> state c' = CONNECTING"
      using c' woke run3' by (auto simp: wake_detector_stop_fields)
    show ?thesis
      apply (rule exI [of _ ev], rule exI [of _ st], rule exI [of _ c1])
      using r A B C D unfolding c2_def by simp
  qed
qed

lemmas demo_defs = demo_started_def demo_controller_def RobotController_init_def demo_settings_def
  demo_mic_def demo_speaker_def WakeWordDetector_init_def

lemmas idle_defs = run_idle_def wait_for_event_or_stop_def status_def detector_start_def
  apply_exts_def stop_def close_session_def wake_detector_stop_def detector_stop_def
  in_open_stream_def in_close_stream_def idle_listening_def no_stop_call_def Let_def

theorem idle_transition_witness:
  "(\<exists>c'. run_idle demo_started \<lparr>load_model = None, turns = [[], [WakeWord]], during_cancel = []\<rparr>
            = Some (None, c') \<and> state demo_started = IDLE \<and> state c' = CONNECTING \<and> running c') \<and>
   (\<exists>c'. run_idle demo_started \<lparr>load_model = None, turns = [[StopCall None]], during_cancel = [WakeWord]\<rparr>
            = Some (None, c') \<and> state demo_started = IDLE \<and> state c' = IDLE)"
proof -
  let ?e1 = "\<lparr>load_model = None, turns = [[], [WakeWord]], during_cancel = []\<rparr>"
  let ?e2 = "\<lparr>load_model = None, turns = [[StopCall None]], during_cancel = [WakeWord]\<rparr>"
  have st: "state demo_started = IDLE" by (simp add: demo_defs)
  have "\<exists>c'. run_idle demo_started ?e1 = Some (None, c')"
    by (simp add: demo_defs idle_defs)
  then obtain c1 where r1: "run_idle demo_started ?e1 = Some (None, c1)" ..
  have "\<exists>c'. run_idle demo_started ?e2 = Some (None, c')"
    by (simp add: demo_defs idle_defs)
  then obtain c2 where r2: "run_idle demo_started ?e2 = Some (None, c2)" ..
  have race1: "\<exists>k. race False (idle_listening demo_started) (turns ?e1) = Some (True, False, k)"
    by (simp add: demo_defs idle_defs)
  have race2: "\<exists>k. race False (idle_listening demo_started) (turns ?e2) = Some (False, True, k)"
    by (simp add: demo_defs idle_defs)
  have run: "running demo_started" by (simp add: demo_defs)
  have a: "state c1 = CONNECTING \<and> running c1"
    using idle_transition [OF r1 st] race1 run by (auto simp: no_stop_call_def)
  have b: "state c2 = IDLE"
    using idle_transition [OF r2 st] race2 by auto
  show ?thesis using r1 r2 st a b by auto
qed

section \<open>Properties of the controller: stop\<close>


lemma detector_stop_twice:
  "detector_stop (fst (detector_stop d mic)) (snd (detector_stop d mic)) = detector_stop d mic"
  by (simp add: detector_stop_def in_close_stream_def)

lemma wake_detector_stop_twice:
  "wake_detector_stop (wake_detector_stop c) = wake_detector_stop c"
  by (simp add: wake_detector_stop_def detector_stop_def in_close_stream_def Let_def)












section \<open>Properties of tool dispatch in a conversation\<close>




lemma execute_handler_dict:
  "map_of tools name = Some tool \<Longrightarrow> tool_handler tool args = HDict d \<Longrightarrow>
   execute_tool tools name args = Inr d"
  by (simp add: execute_tool_def)




lemma handle_message_session_live:
  "session_live c \<Longrightarrow> session_live (fst (snd (handle_message c pb m now sdk)))"
  by (auto simp: handle_message_def session_live_def shown_def send_tool_response_def
        is_connected_def Let_def
      split: option.splits sum.splits prod.splits if_splits)

lemma note_tool_call_session_live:
  "session_live c \<Longrightarrow> session_live (note_tool_call c m)"
  by (auto simp: note_tool_call_def session_live_def split: option.splits)

lemma note_tool_call_running: "running (note_tool_call c m) = running c"
  by (auto simp: note_tool_call_def split: option.splits)

lemma next_message_session_live:
  assumes "session_live (cv_controller cv)"
  shows "session_live (cv_controller (next_message cv now sdk))"
proof (cases "cv_stream cv")
  case Nil
  with assms show ?thesis by (simp add: next_message_def split: stream_end.splits)
next
  case (Cons m ms)
  define c where "c = note_tool_call (cv_controller cv) m"
  have lc: "session_live c" unfolding c_def using assms by (rule note_tool_call_session_live)
  show ?thesis
  proof (cases "running c")
    case False
    with Cons lc show ?thesis by (simp add: next_message_def Let_def c_def [symmetric])
  next
    case True
    obtain e c1 pb1 w where h: "handle_message c (cv_playback cv) m now sdk = (e, c1, pb1, w)"
      by (cases "handle_message c (cv_playback cv) m now sdk") auto
    have "session_live c1"
      using handle_message_session_live [OF lc, of "cv_playback cv" m now sdk] h by simp
    with Cons True h show ?thesis
      by (cases e; cases w) (simp_all add: next_message_def Let_def c_def [symmetric])
  qed
qed

lemma receive_turn_session_live:
  "session_live (cv_controller cv) \<Longrightarrow> session_live (cv_controller (receive_turn cv now sdk))"
  by (cases "cv_receive cv")
     (auto simp: receive_turn_def next_message_session_live split: option.splits)

lemma apply_ext_session_live:
  "session_live (snd wc) \<Longrightarrow> session_live (snd (apply_ext e wc))"
  by (cases e; cases wc) (auto simp: session_live_def stop_fields)

lemma controller_main_turn: "cv_controller (main_turn cv) = cv_controller cv"
  by (auto simp: main_turn_def cancel_receive_def Let_def split: main_pc.splits recv_pc.splits)

lemma conv_step_session_live:
  "session_live (cv_controller cv) \<Longrightarrow> session_live (cv_controller (conv_step e cv))"
  unfolding conv_step_def controller_main_turn
  by (cases e)
     (auto simp: receive_turn_session_live monitor_turn_def Let_def
        intro: apply_ext_session_live [of "(False, c)" for c, simplified])

lemma conv_run_session_live:
  "session_live (cv_controller cv) \<Longrightarrow> session_live (cv_controller (conv_run es cv))"
  by (induction es arbitrary: cv) (simp_all add: conv_step_session_live)

lemma conv_begin_session_live:
  "session_live c \<Longrightarrow> session_live (cv_controller (conv_begin c env))"
  by (auto simp: conv_begin_def session_live_def status_def Let_def split: option.splits)




section \<open>Properties of the playback pipeline: a turn\<close>

lemma somes_append: "somes (q @ r) = somes q @ somes r"
  by (induction q rule: somes.induct) simp_all

lemma sentinel_tail: "sentinel_last flushed (x # q) \<Longrightarrow> sentinel_last flushed q"
  by (cases q) (auto simp: sentinel_last_def split: if_splits)

lemma sentinel_head: "sentinel_last flushed (None # q) \<Longrightarrow> q = []"
  by (cases q) (auto simp: sentinel_last_def split: if_splits)

lemma one_chunk_enter_phase3:
  assumes "tasks p = [t]" "\<not> cancel_requested t" "pb_task p = Some 0" "out_open (pb_audio_output p)"
    "sentinel_last flushed (queue p)"
    "playing p" "written (pb_audio_output p) @ somes (queue p) = w0 @ [d]"
  shows "one_chunk w0 d flushed (enter_phase3 p 0)"
  using assms by (simp add: one_chunk_def enter_phase3_def set_pc_def)

lemma one_chunk_enter_phase2:
  assumes "tasks p = [t]" "\<not> cancel_requested t" "pb_task p = Some 0" "out_open (pb_audio_output p)"
    "sentinel_last flushed (queue p)"
    "playing p" "written (pb_audio_output p) @ initial @ somes (queue p) = w0 @ [d]"
  shows "one_chunk w0 d flushed (enter_phase2 p 0 initial)"
proof (cases initial)
  case Nil
  with assms show ?thesis
    by (simp add: enter_phase2_def one_chunk_enter_phase3 [where t = t])
next
  case (Cons c cs)
  with assms show ?thesis
    by (simp add: enter_phase2_def out_write_chunk_def one_chunk_def set_pc_def)
qed

lemma one_chunk_finish:
  assumes "tasks p = [t]" "\<not> cancel_requested t" "pb_task p = Some 0" "out_open (pb_audio_output p)"
    "sentinel_last flushed (queue p)"
    "somes (queue p) = []" "written (pb_audio_output p) = w0 @ [d]"
  shows "one_chunk w0 d flushed (finish p 0)"
  using assms by (simp add: one_chunk_def finish_def set_pc_def)

lemma one_chunk_resume0:
  assumes "one_chunk w0 d flushed p"
  shows "one_chunk w0 d flushed (resume p 0 timed_out)"
proof -
  from assms obtain t where
    t: "tasks p = [t]" "\<not> cancel_requested t" "pb_task p = Some 0" "out_open (pb_audio_output p)" and
    sent: "sentinel_last flushed (queue p)" and
    pl: "pc t \<noteq> Finished \<longrightarrow> playing p" and
    fin: "pc t = Finished \<longrightarrow> somes (queue p) = []" and
    ok: "writes_ok (pc t)" and
    eq: "written (pb_audio_output p) @ held (pc t) @ somes (queue p) = w0 @ [d]"
    unfolding one_chunk_def by blast
  show ?thesis
  proof (cases "pc t")
    case NotStarted
    show ?thesis
    proof (cases "buffer_chunks p \<le> 0")
      case True
      have "one_chunk w0 d flushed (enter_phase2 p 0 [])"
        by (rule one_chunk_enter_phase2 [where t = t]) (use t sent pl eq NotStarted in simp_all)
      with t NotStarted True show ?thesis by (simp add: resume_def)
    next
      case False
      with t sent pl eq NotStarted show ?thesis
        by (simp add: resume_def one_chunk_def set_pc_def)
    qed
  next
    case (Phase1 k initial)
    show ?thesis
    proof (cases "queue p")
      case Nil
      show ?thesis
      proof (cases timed_out)
        case True
        have "one_chunk w0 d flushed (enter_phase2 p 0 initial)"
          by (rule one_chunk_enter_phase2 [where t = t]) (use t sent pl eq Phase1 in simp_all)
        with t Phase1 Nil True show ?thesis by (simp add: resume_def)
      next
        case False
        with t Phase1 Nil assms show ?thesis by (simp add: resume_def)
      qed
    next
      case (Cons item q)
      define p1 where "p1 = p\<lparr>queue := q\<rparr>"
      have s1: "sentinel_last flushed (queue p1)"
        using sentinel_tail [of flushed item q] sent Cons by (simp add: p1_def)
      have t1: "tasks p1 = [t]" "pb_task p1 = Some 0" "out_open (pb_audio_output p1)" "playing p1"
        using t pl Phase1 by (simp_all add: p1_def)
      show ?thesis
      proof (cases item)
        case None
        have "one_chunk w0 d flushed (enter_phase2 p1 0 initial)"
          by (rule one_chunk_enter_phase2 [where t = t])
             (use t t1 s1 eq Phase1 Cons None in \<open>simp_all add: p1_def\<close>)
        with t Phase1 Cons None show ?thesis by (simp add: resume_def p1_def)
      next
        case (Some chunk)
        show ?thesis
        proof (cases "k \<le> 1")
          case True
          have "one_chunk w0 d flushed (enter_phase2 p1 0 (initial @ [chunk]))"
            by (rule one_chunk_enter_phase2 [where t = t])
               (use t t1 s1 eq Phase1 Cons Some in \<open>simp_all add: p1_def\<close>)
          with t Phase1 Cons Some True show ?thesis by (simp add: resume_def p1_def)
        next
          case False
          with t t1 s1 eq Phase1 Cons Some show ?thesis
            by (simp add: resume_def one_chunk_def set_pc_def p1_def)
        qed
      qed
    qed
  next
    case (Phase2 rest okf)
    have "one_chunk w0 d flushed (enter_phase2 p 0 rest)"
      by (rule one_chunk_enter_phase2 [where t = t]) (use t sent pl eq Phase2 in simp_all)
    with t Phase2 ok show ?thesis by (simp add: resume_def)
  next
    case Phase3Get
    show ?thesis
    proof (cases "queue p")
      case Nil
      show ?thesis
      proof (cases timed_out)
        case True
        have "one_chunk w0 d flushed (finish p 0)"
          by (rule one_chunk_finish [where t = t]) (use t sent eq Phase3Get Nil in simp_all)
        with t Phase3Get Nil True show ?thesis by (simp add: resume_def)
      next
        case False
        with t Phase3Get Nil assms show ?thesis by (simp add: resume_def)
      qed
    next
      case (Cons item q)
      define p1 where "p1 = p\<lparr>queue := q\<rparr>"
      have s1: "sentinel_last flushed (queue p1)"
        using sentinel_tail [of flushed item q] sent Cons by (simp add: p1_def)
      have t1: "tasks p1 = [t]" "pb_task p1 = Some 0" "out_open (pb_audio_output p1)" "playing p1"
        using t pl Phase3Get by (simp_all add: p1_def)
      show ?thesis
      proof (cases item)
        case None
        have q: "q = []" using sentinel_head [of flushed q] sent Cons None by simp
        have "one_chunk w0 d flushed (finish p1 0)"
          by (rule one_chunk_finish [where t = t])
             (use t t1 s1 eq Phase3Get Cons None q in \<open>simp_all add: p1_def\<close>)
        with t Phase3Get Cons None show ?thesis by (simp add: resume_def p1_def)
      next
        case (Some chunk)
        with t t1 s1 eq Phase3Get Cons pl show ?thesis
          by (simp add: resume_def one_chunk_def set_pc_def p1_def out_write_chunk_def)
      qed
    qed
  next
    case (Phase3Write okf)
    have "one_chunk w0 d flushed (enter_phase3 p 0)"
      by (rule one_chunk_enter_phase3 [where t = t]) (use t sent pl eq Phase3Write in simp_all)
    with t Phase3Write ok show ?thesis by (simp add: resume_def)
  next
    case Finished
    with t assms show ?thesis by (simp add: resume_def)
  qed
qed

lemma one_chunk_resume:
  assumes "one_chunk w0 d flushed p"
  shows "one_chunk w0 d flushed (resume p i timed_out)"
proof (cases i)
  case 0
  with assms show ?thesis by (simp add: one_chunk_resume0)
next
  case (Suc n)
  with assms show ?thesis by (auto simp: resume_def one_chunk_def)
qed

lemma one_chunk_run:
  "only_resumes acts \<Longrightarrow> one_chunk w0 d flushed p \<Longrightarrow> one_chunk w0 d flushed (pb_run acts p)"
  unfolding pb_run_def only_resumes_def
proof (induction acts arbitrary: p)
  case Nil
  then show ?case by simp
next
  case (Cons a acts)
  then show ?case by (cases a) (simp_all add: one_chunk_resume)
qed

lemma one_chunk_play:
  "one_chunk (written out) d False (play_chunk (AudioPlaybackStream_init out rate k) d)"
  by (simp add: one_chunk_def play_chunk_def AudioPlaybackStream_init_def out_open_stream_def
      sentinel_last_def Let_def)

lemma one_chunk_flush:
  assumes "one_chunk w0 d False p"
  shows "one_chunk w0 d True (fst (flush_begin p))"
proof -
  from assms obtain t where t: "tasks p = [t]" "pb_task p = Some 0"
    unfolding one_chunk_def by blast
  show ?thesis
  proof (cases "pc t = Finished")
    case True
    with assms t show ?thesis
      by (auto simp: flush_begin_def task_done_def one_chunk_def sentinel_last_def
            dest: in_set_butlastD)
  next
    case False
    with assms t show ?thesis
      by (auto simp: flush_begin_def task_done_def one_chunk_def sentinel_last_def
            somes_append butlast_append)
  qed
qed

lemma one_chunk_done:
  assumes "one_chunk w0 d flushed p" and "task_done p 0"
  shows "written (pb_audio_output p) = w0 @ [d]"
  using assms by (auto simp: one_chunk_def task_done_def)


lemma rank_enter_phase3:
  assumes "tasks p = [t]" "playing p"
  shows "pb_rank (enter_phase3 p 0) = 1 + 2 * length (somes (queue p)) + length (queue p)"
  using assms by (simp add: pb_rank_def enter_phase3_def set_pc_def)

lemma rank_enter_phase2:
  assumes "tasks p = [t]" "playing p" "out_open (pb_audio_output p)"
  shows "pb_rank (enter_phase2 p 0 initial)
           = 1 + length initial + 2 * length (somes (queue p)) + length (queue p)"
proof (cases initial)
  case Nil
  with assms show ?thesis
    by (simp add: enter_phase2_def rank_enter_phase3 [where t = t])
next
  case (Cons c cs)
  with assms show ?thesis
    by (simp add: enter_phase2_def out_write_chunk_def pb_rank_def set_pc_def)
qed

lemma rank_decreases:
  assumes "one_chunk w0 d flushed p" and "\<not> task_done p 0"
  shows "pb_rank (resume p 0 True) < pb_rank p"
proof -
  from assms obtain t where
    t: "tasks p = [t]" "\<not> cancel_requested t" "out_open (pb_audio_output p)" and
    pl: "playing p" and nf: "pc t \<noteq> Finished" and ok: "writes_ok (pc t)"
    unfolding one_chunk_def task_done_def by auto
  show ?thesis
  proof (cases "pc t")
    case NotStarted
    with t pl show ?thesis
      by (simp add: resume_def rank_enter_phase2 [where t = t])
         (simp add: pb_rank_def set_pc_def)
  next
    case (Phase1 k initial)
    show ?thesis
    proof (cases "queue p")
      case Nil
      with t pl Phase1 show ?thesis
        by (simp add: resume_def rank_enter_phase2 [where t = t]) (simp add: pb_rank_def)
    next
      case (Cons item q)
      have e: "\<And>ini. pb_rank (enter_phase2 (p\<lparr>queue := q\<rparr>) 0 ini)
                 = 1 + length ini + 2 * length (somes q) + length q"
        using rank_enter_phase2 [of "p\<lparr>queue := q\<rparr>" t] t pl by simp
      show ?thesis
      proof (cases item)
        case None
        with t Phase1 Cons e show ?thesis
          by (simp add: resume_def) (simp add: pb_rank_def)
      next
        case (Some chunk)
        with t Phase1 Cons e show ?thesis
          by (simp add: resume_def) (simp add: pb_rank_def set_pc_def)
      qed
    qed
  next
    case (Phase2 rest okf)
    with t pl ok show ?thesis
      by (simp add: resume_def rank_enter_phase2 [where t = t]) (simp add: pb_rank_def)
  next
    case Phase3Get
    show ?thesis
    proof (cases "queue p")
      case Nil
      with t Phase3Get show ?thesis
        by (simp add: resume_def finish_def set_pc_def pb_rank_def)
    next
      case (Cons item q)
      with t pl Phase3Get show ?thesis
        by (cases item)
           (simp_all add: resume_def finish_def set_pc_def pb_rank_def out_write_chunk_def)
    qed
  next
    case (Phase3Write okf)
    with t pl ok show ?thesis
      by (simp add: resume_def rank_enter_phase3 [where t = t]) (simp add: pb_rank_def)
  next
    case Finished
    with nf show ?thesis by simp
  qed
qed

lemma task_done_resume:
  "task_done p 0 \<Longrightarrow> resume p 0 timed_out = p"
  by (simp add: task_done_def resume_def)

lemma drains_with_timeouts:
  "one_chunk w0 d flushed p \<Longrightarrow> pb_rank p \<le> n \<Longrightarrow>
   task_done (pb_run (replicate n (Resume 0 True)) p) 0"
proof (induction n arbitrary: p)
  case 0
  then show ?case
    by (cases "task_done p 0")
       (auto simp: pb_run_def dest: rank_decreases)
next
  case (Suc n)
  show ?case
  proof (cases "task_done p 0")
    case True
    have "pb_run (replicate (Suc n) (Resume 0 True)) p = p"
      using True by (induction n) (simp_all add: pb_run_def task_done_resume)
    with True show ?thesis by simp
  next
    case False
    have "pb_rank (resume p 0 True) \<le> n"
      using rank_decreases [OF Suc.prems(1) False] Suc.prems(2) by simp
    from Suc.IH [OF one_chunk_resume0 [OF Suc.prems(1)] this]
    show ?thesis by (simp add: pb_run_def)
  qed
qed

lemma pb_run_append: "pb_run (xs @ ys) p = pb_run ys (pb_run xs p)"
  by (simp add: pb_run_def)

lemma pb_run_Cons: "pb_run (x # xs) p = pb_run xs (pb_step x p)"
  by (simp add: pb_run_def)

lemma only_resumes_replicate: "only_resumes (replicate n (Resume i t))"
  by (simp add: only_resumes_def list_all_iff)

lemma handle_audio:
  "msg_type m = ''audio'' \<Longrightarrow>
   handle_message c p m now sdk = (None, c, pb_step (PlayChunk (msg_audio_data m)) p, None)"
  by (simp add: handle_message_def)

lemma handle_turn_complete:
  "msg_type m = ''turn_complete'' \<Longrightarrow>
   handle_message c p m now sdk
     = (None, c\<lparr>last_activity := now\<rparr>, pb_step FlushPut p, snd (flush_begin p))"
  by (simp add: handle_message_def)

lemma one_chunk_awaited:
  assumes "one_chunk w0 d False p"
  shows "snd (flush_begin p) = (if task_done p 0 then None else Some 0)"
  using assms by (auto simp: one_chunk_def flush_begin_def)

lemma task_done_run:
  "only_resumes acts \<Longrightarrow> task_done p i \<Longrightarrow> task_done (pb_run acts p) i"
  unfolding pb_run_def only_resumes_def
proof (induction acts arbitrary: p)
  case Nil
  then show ?case by simp
next
  case (Cons a acts)
  have "\<And>j t. task_done (resume p j t) i"
    using Cons.prems(2)
    by (auto simp: task_done_def resume_def Let_def set_pc_def finish_def enter_phase2_def
          enter_phase3_def nth_list_update
          split: drain_pc.splits list.splits option.splits sum.splits)
  with Cons show ?case by (cases a) simp_all
qed

lemma flushed_unchanged:
  "task_done p 0 \<Longrightarrow> pb_task p = Some 0 \<Longrightarrow> fst (flush_begin p) = p"
  by (simp add: flush_begin_def)

text \<open>
  The receive task, suspended in \<open>flush\<close> for drain task \<open>i\<close>, goes on to the next
  message exactly when that \<open>flush\<close> has returned.
\<close>

lemma receive_waits_for_flush:
  "cv_receive cv = RFlush i cancelled \<Longrightarrow>
   cv_receive (receive_turn cv now sdk)
     = (if flush_returned (Some i) (cv_playback cv) then RWait else RFlush i cancelled)"
  by (simp add: receive_turn_def flush_returned_def)

text \<open>
  Claim C6. A new playback stream handles an audio message with the chunk \<open>d\<close> and
  then \<open>turn_complete\<close>; the drain task takes any turns before and after \<open>flush\<close> is
  called, with or without timeouts. \<open>flush\<close> is called on the stream as it is after
  the turns \<open>before\<close>, and what it waits for is what \<open>flush_begin\<close> returns there.
  Once that \<open>flush\<close> has returned (at once, or because the task it awaits is done), the
  speaker's log is the old log followed by exactly \<open>d\<close>: exactly \<open>length d\<close> bytes
  were written. The \<open>flush\<close> does return: with the timeouts of the waits on an empty
  queue, it has returned after finitely many turns of the drain task. The last two parts
  say that \<open>_handle_message\<close> handles the two messages by \<open>play_chunk\<close> and by \<open>flush\<close>
  (after refreshing the activity timestamp), and waits for the task \<open>flush_begin\<close> names
  (until \<open>flush_returned\<close> holds of it, \<open>receive_waits_for_flush\<close>).
\<close>

theorem audio_then_turn_complete:
  assumes "only_resumes before" and "only_resumes after"
  shows "(flush_returned
            (snd (flush_begin (pb_run (PlayChunk d # before) (AudioPlaybackStream_init out rate k))))
            (pb_run (PlayChunk d # before @ FlushPut # after)
               (AudioPlaybackStream_init out rate k)) \<longrightarrow>
            written (pb_audio_output (pb_run (PlayChunk d # before @ FlushPut # after)
                      (AudioPlaybackStream_init out rate k))) = written out @ [d] \<and>
            bytes_written (pb_audio_output (pb_run (PlayChunk d # before @ FlushPut # after)
                      (AudioPlaybackStream_init out rate k))) = bytes_written out + length d) \<and>
         (\<exists>n. flush_returned
            (snd (flush_begin (pb_run (PlayChunk d # before) (AudioPlaybackStream_init out rate k))))
            (pb_run (PlayChunk d # before @ FlushPut # after @ replicate n (Resume 0 True))
                      (AudioPlaybackStream_init out rate k))) \<and>
         (\<forall>m c p now sdk. msg_type m = ''audio'' \<longrightarrow>
            handle_message c p m now sdk = (None, c, pb_step (PlayChunk (msg_audio_data m)) p, None)) \<and>
         (\<forall>m c p now sdk. msg_type m = ''turn_complete'' \<longrightarrow>
            handle_message c p m now sdk
              = (None, c\<lparr>last_activity := now\<rparr>, pb_step FlushPut p, snd (flush_begin p)))"
proof -
  let ?init = "AudioPlaybackStream_init out rate k"
  let ?start = "pb_run (PlayChunk d # before) ?init"
  let ?p = "pb_run (PlayChunk d # before @ FlushPut # after) ?init"
  have p0: "?start = pb_run before (play_chunk ?init d)"
    by (simp add: pb_run_Cons)
  have i1: "one_chunk (written out) d False ?start"
    unfolding p0 using assms(1) one_chunk_play by (rule one_chunk_run)
  have i2: "one_chunk (written out) d True (fst (flush_begin ?start))"
    using i1 by (rule one_chunk_flush)
  have p: "?p = pb_run after (fst (flush_begin ?start))"
    by (simp add: pb_run_Cons pb_run_append)
  have i3: "one_chunk (written out) d True ?p"
    unfolding p using assms(2) i2 by (rule one_chunk_run)
  have aw: "snd (flush_begin ?start) = (if task_done ?start 0 then None else Some 0)"
    using i1 by (rule one_chunk_awaited)
  have t0: "pb_task ?start = Some 0"
    using i1 by (auto simp: one_chunk_def)
  have d: "flush_returned (snd (flush_begin ?start)) ?p \<longrightarrow> task_done ?p 0"
  proof (cases "task_done ?start 0")
    case True
    then have "fst (flush_begin ?start) = ?start" using t0 by (rule flushed_unchanged)
    then have "?p = pb_run after ?start" using p by simp
    with task_done_run [OF assms(2) True] show ?thesis by simp
  next
    case False
    with aw show ?thesis by (simp add: flush_returned_def)
  qed
  have a: "flush_returned (snd (flush_begin ?start)) ?p \<longrightarrow>
             written (pb_audio_output ?p) = written out @ [d]"
    using one_chunk_done [OF i3] d by blast
  have td: "task_done (pb_run (PlayChunk d # before @ FlushPut # after @ replicate (pb_rank ?p) (Resume 0 True)) ?init) 0"
    using drains_with_timeouts [OF i3 order_refl]
    by (simp add: pb_run_Cons pb_run_append)
  have b: "flush_returned (snd (flush_begin ?start))
             (pb_run (PlayChunk d # before @ FlushPut # after @ replicate (pb_rank ?p) (Resume 0 True)) ?init)"
    using td aw by (simp add: flush_returned_def)
  have b': "\<exists>n. flush_returned (snd (flush_begin ?start))
             (pb_run (PlayChunk d # before @ FlushPut # after @ replicate n (Resume 0 True)) ?init)"
    using b by (rule exI)
  have h1: "\<forall>m c p now sdk. msg_type m = ''audio'' \<longrightarrow>
            handle_message c p m now sdk = (None, c, pb_step (PlayChunk (msg_audio_data m)) p, None)"
    by (simp add: handle_audio)
  have h2: "\<forall>m c p now sdk. msg_type m = ''turn_complete'' \<longrightarrow>
            handle_message c p m now sdk
              = (None, c\<lparr>last_activity := now\<rparr>, pb_step FlushPut p, snd (flush_begin p))"
    by (simp add: handle_turn_complete)
  have a': "flush_returned (snd (flush_begin ?start)) ?p \<longrightarrow>
            written (pb_audio_output ?p) = written out @ [d] \<and>
            bytes_written (pb_audio_output ?p) = bytes_written out + length d"
    using a by (simp add: bytes_written_def)
  from a' b' h1 h2 show ?thesis by blast
qed

lemmas pb_defs = pb_run_def play_chunk_def flush_begin_def playback_stop_def resume_def
  enter_phase2_def enter_phase3_def finish_def set_pc_def task_done_def cancel_def
  cancel_task_def out_write_chunk_def out_open_stream_def out_stop_def
  AudioPlaybackStream_init_def Let_def

theorem audio_then_turn_complete_witness:
  "only_resumes [Resume 0 False] \<and>
   only_resumes [Resume 0 False, Resume 0 False, Resume 0 False, Resume 0 True] \<and>
   snd (flush_begin (pb_run (PlayChunk [0xAB, 0xAB] # [Resume 0 False])
                (AudioPlaybackStream_init demo_speaker 24000 3))) = Some 0 \<and>
   flush_returned
     (snd (flush_begin (pb_run (PlayChunk [0xAB, 0xAB] # [Resume 0 False])
                (AudioPlaybackStream_init demo_speaker 24000 3))))
     (pb_run (PlayChunk [0xAB, 0xAB] # [Resume 0 False] @ FlushPut #
                        [Resume 0 False, Resume 0 False, Resume 0 False, Resume 0 True])
                (AudioPlaybackStream_init demo_speaker 24000 3)) \<and>
   \<not> flush_returned
     (snd (flush_begin (pb_run (PlayChunk [0xAB, 0xAB] # [Resume 0 False])
                (AudioPlaybackStream_init demo_speaker 24000 3))))
     (pb_run (PlayChunk [0xAB, 0xAB] # [Resume 0 False] @ FlushPut #
                        [Resume 0 False, Resume 0 False])
                (AudioPlaybackStream_init demo_speaker 24000 3)) \<and>
   bytes_written (pb_audio_output
      (pb_run (PlayChunk [0xAB, 0xAB] # [Resume 0 False] @ FlushPut #
                 [Resume 0 False, Resume 0 False, Resume 0 False, Resume 0 True])
         (AudioPlaybackStream_init demo_speaker 24000 3))) = 2"
proof -
  have b: "only_resumes [Resume 0 False]"
    by (simp add: only_resumes_def)
  have a: "only_resumes [Resume 0 False, Resume 0 False, Resume 0 False, Resume 0 True]"
    by (simp add: only_resumes_def)
  have s: "snd (flush_begin (pb_run (PlayChunk [0xAB, 0xAB] # [Resume 0 False])
                (AudioPlaybackStream_init demo_speaker 24000 3))) = Some 0"
    by (simp add: pb_defs demo_speaker_def)
  have t: "task_done (pb_run (PlayChunk [0xAB, 0xAB] # [Resume 0 False] @ FlushPut #
                        [Resume 0 False, Resume 0 False, Resume 0 False, Resume 0 True])
                (AudioPlaybackStream_init demo_speaker 24000 3)) 0"
    by (simp add: pb_defs demo_speaker_def)
  have n: "\<not> task_done (pb_run (PlayChunk [0xAB, 0xAB] # [Resume 0 False] @ FlushPut #
                        [Resume 0 False, Resume 0 False])
                (AudioPlaybackStream_init demo_speaker 24000 3)) 0"
    by (simp add: pb_defs demo_speaker_def)
  have w: "bytes_written demo_speaker = 0"
    by (simp add: bytes_written_def demo_speaker_def)
  show ?thesis
    using audio_then_turn_complete [OF b a, of "[0xAB, 0xAB]" demo_speaker 24000 3] b a s t n w
    by (simp add: flush_returned_def)
qed

section \<open>Properties of a conversation: the silence timeout\<close>

lemmas conv_defs = conv_begin_def conv_step_def main_turn_def cancel_receive_def
  monitor_turn_def monitor_condition_def receive_turn_def next_message_def note_tool_call_def
  handle_message_def status_def shown_def capture_start_def AudioCaptureStream_init_def
  in_open_stream_def ServerMessage_init_def connect_def GeminiSession_init_def
  session_config_def get_tool_declarations_def ToolServer_init_def

lemma conv_run_append: "conv_run (xs @ ys) cv = conv_run ys (conv_run xs cv)"
proof (induction xs arbitrary: cv)
  case Nil
  then show ?case by simp
next
  case (Cons x xs)
  then show ?case by (cases ys) auto
qed

lemma long_reply_stuck:
  "waits_for_silent_session
     (conv_run long_reply_schedule (conv_begin demo_in_conversation (long_reply_env later))) \<and>
   state (cv_controller
     (conv_run long_reply_schedule (conv_begin demo_in_conversation (long_reply_env later))))
     = CONVERSATION \<and>
   cv_monitor_done
     (conv_run long_reply_schedule (conv_begin demo_in_conversation (long_reply_env later)))"
  by (simp add: waits_for_silent_session_def long_reply_schedule_def long_reply_env_def
      demo_in_conversation_def audio_message_def demo_defs demo_personality_def conv_defs pb_defs)

lemma silent_session_step:
  assumes "waits_for_silent_session cv" and "case e of Ext x \<Rightarrow> False | _ \<Rightarrow> True"
  shows "waits_for_silent_session (conv_step e cv)"
  using assms
  by (cases e)
     (auto simp: waits_for_silent_session_def conv_step_def main_turn_def receive_turn_def
        next_message_def monitor_turn_def Let_def)

lemma silent_session_run:
  "waits_for_silent_session cv \<Longrightarrow> no_ext es \<Longrightarrow> waits_for_silent_session (conv_run es cv)"
proof (induction es arbitrary: cv)
  case Nil
  then show ?case by simp
next
  case (Cons e es)
  then show ?case
    by (auto simp: no_ext_def silent_session_step)
qed


lemma close_session_no_raise:
  "aexit = None \<or> (\<exists>e. aexit = Some e \<and> is_Exception e) \<Longrightarrow> fst (close_session c aexit) = None"
  by (auto simp: close_session_def close_def Let_def split: option.splits)

lemma conv_finally_idle:
  assumes "aexit = None \<or> (\<exists>e. aexit = Some e \<and> is_Exception e)"
  shows "fst (conv_finally cv aexit) = None \<and> state (snd (conv_finally cv aexit)) = IDLE \<and>
         session (snd (conv_finally cv aexit)) = None"
proof -
  define c1 where "c1 = (cv_controller cv)\<lparr>
      audio_input := cap_audio_input (capture_stop ((cv_capture cv)\<lparr>cap_audio_input := audio_input (cv_controller cv)\<rparr>)),
      audio_output := pb_audio_output (playback_stop (cv_playback cv))\<rparr>"
  obtain e c2 where cs: "close_session c1 aexit = (e, c2)" by (cases "close_session c1 aexit")
  have "e = None" using close_session_no_raise [OF assms, of c1] cs by simp
  then show ?thesis
    using cs by (simp add: conv_finally_def Let_def c1_def [symmetric])
qed

text \<open>
  What the timeout monitor achieves while the receive task waits for a message: the
  monitor returns at the poll that finds the silence at or above the timeout, the
  receive task ends with the cancellation, and the \<open>finally\<close> block leaves the
  controller in IDLE without a session.
\<close>

lemma timeout_ends_waiting_conversation:
  assumes "cv_main cv = Racing" and "cv_receive cv = RWait \<or> cv_receive cv = RStart"
    and "\<not> cv_monitor_done cv"
    and "now - last_activity (cv_controller cv) \<ge> conversation_timeout (cv_controller cv)"
  shows "cv_main (conv_step (Poll now) cv) = Returned \<and>
         state (snd (conv_finally (conv_step (Poll now) cv) None)) = IDLE \<and>
         session (snd (conv_finally (conv_step (Poll now) cv) None)) = None"
proof -
  have "cv_main (conv_step (Poll now) cv) = Returned"
    using assms
    by (auto simp: conv_step_def monitor_turn_def main_turn_def cancel_receive_def Let_def)
  then show ?thesis using conv_finally_idle [of None] by simp
qed

text \<open>
  Claim C3 does not hold of the code when the silence timeout is reached while the
  receive task waits in \<open>playback.flush()\<close>. In the run below the session delivers
  an audio chunk and \<open>turn_complete\<close> and then stays silent. After five steps the
  receive task waits in \<open>flush\<close> for the drain task, the last activity is at clock
  reading 2 and the timeout is 30. The poll at 33 makes the monitor return, and
  \<open>_run_conversation\<close> cancels the receive task. The cancellation ends the drain
  task, and \<open>flush\<close> catches the \<open>CancelledError\<close> meant for the receive task, which
  goes back to waiting for a message. Whatever the tasks do afterwards, as long as
  nobody calls \<open>stop()\<close>, \<open>_run_conversation\<close> does not return: the state stays
  CONVERSATION and the session stays open.
\<close>

theorem silence_timeout_swallowed_in_flush:
  assumes "no_ext later"
  shows "cv_receive (conv_run (take 5 long_reply_schedule)
                       (conv_begin demo_in_conversation (long_reply_env later))) = RFlush 0 False \<and>
         33 - last_activity (cv_controller (conv_run (take 5 long_reply_schedule)
                       (conv_begin demo_in_conversation (long_reply_env later))))
           \<ge> conversation_timeout (cv_controller (conv_run (take 5 long_reply_schedule)
                       (conv_begin demo_in_conversation (long_reply_env later)))) \<and>
         cv_monitor_done (conv_run (take 6 long_reply_schedule)
                       (conv_begin demo_in_conversation (long_reply_env later))) \<and>
         run_conversation demo_in_conversation (long_reply_env later) = None \<and>
         state (cv_controller (conv_run (schedule (long_reply_env later))
                       (conv_begin demo_in_conversation (long_reply_env later)))) = CONVERSATION \<and>
         session (cv_controller (conv_run (schedule (long_reply_env later))
                       (conv_begin demo_in_conversation (long_reply_env later)))) \<noteq> None"
proof -
  let ?b = "conv_begin demo_in_conversation (long_reply_env later)"
  have five: "cv_receive (conv_run (take 5 long_reply_schedule) ?b) = RFlush 0 False \<and>
      last_activity (cv_controller (conv_run (take 5 long_reply_schedule) ?b)) = 2 \<and>
      conversation_timeout (cv_controller (conv_run (take 5 long_reply_schedule) ?b)) = 30"
    by (simp add: long_reply_schedule_def long_reply_env_def
      demo_in_conversation_def audio_message_def demo_defs demo_personality_def conv_defs pb_defs)
  have six: "cv_monitor_done (conv_run (take 6 long_reply_schedule) ?b)"
    by (simp add: long_reply_schedule_def long_reply_env_def
      demo_in_conversation_def audio_message_def demo_defs demo_personality_def conv_defs pb_defs)
  have ctl: "state (cv_controller (conv_run long_reply_schedule ?b)) = CONVERSATION \<and>
             session (cv_controller (conv_run long_reply_schedule ?b)) \<noteq> None \<and>
             running (cv_controller (conv_run long_reply_schedule ?b))"
    by (simp add: long_reply_schedule_def long_reply_env_def
      demo_in_conversation_def audio_message_def demo_defs demo_personality_def conv_defs pb_defs)
  have sch: "schedule (long_reply_env later) = long_reply_schedule @ later"
    by (simp add: long_reply_env_def)
  have w: "waits_for_silent_session (conv_run (long_reply_schedule @ later) ?b)"
    unfolding conv_run_append
    using long_reply_stuck assms by (simp add: silent_session_run)
  have none: "run_conversation demo_in_conversation (long_reply_env later) = None"
    using w by (simp add: run_conversation_def sch waits_for_silent_session_def Let_def)
  have keep: "\<And>cv es. waits_for_silent_session cv \<Longrightarrow> no_ext es \<Longrightarrow>
                cv_controller (conv_run es cv) = cv_controller cv"
  proof -
    fix cv :: conversation and es
    show "waits_for_silent_session cv \<Longrightarrow> no_ext es \<Longrightarrow>
                cv_controller (conv_run es cv) = cv_controller cv"
    proof (induction es arbitrary: cv)
      case Nil
      then show ?case by simp
    next
      case (Cons e es)
      have s: "waits_for_silent_session (conv_step e cv)"
        using Cons.prems by (auto simp: no_ext_def silent_session_step)
      have c: "cv_controller (conv_step e cv) = cv_controller cv"
        using Cons.prems
        by (cases e)
           (auto simp: no_ext_def waits_for_silent_session_def conv_step_def main_turn_def
              receive_turn_def next_message_def monitor_turn_def Let_def)
      from Cons.IH [OF s] Cons.prems c show ?case
        by (auto simp: no_ext_def waits_for_silent_session_def)
    qed
  qed
  have ctl2: "cv_controller (conv_run (long_reply_schedule @ later) ?b)
                = cv_controller (conv_run long_reply_schedule ?b)"
    unfolding conv_run_append using keep long_reply_stuck assms by simp
  show ?thesis
    using five six none ctl by (simp add: sch ctl2)
qed

theorem silence_timeout_swallowed_in_flush_witness:
  "no_ext [Poll 40, Drain 0 True, Recv 41 None, Poll 100] \<and>
   run_conversation demo_in_conversation
     (long_reply_env [Poll 40, Drain 0 True, Recv 41 None, Poll 100]) = None"
proof -
  have n: "no_ext [Poll 40, Drain 0 True, Recv 41 None, Poll 100]"
    by (simp add: no_ext_def)
  show ?thesis
    using silence_timeout_swallowed_in_flush [OF n] n by simp
qed

section \<open>Properties of the playback pipeline: interruption\<close>

text \<open>
  Over every run of a stream (any calls of \<open>play_chunk\<close>, \<open>flush\<close> and \<open>stop\<close>, any turns
  of its drain tasks) the chunks in the speaker's log, held by a drain task that is
  not cancelled, or in the queue are chunks that were given to \<open>play_chunk\<close>
  (\<open>accounted_run\<close>). So what was written up to any point is at most what was enqueued up
  to it (\<open>written_was_enqueued\<close>, \<open>bytes_written_bounded\<close>). \<open>stop\<close> leaves the
  queue empty (\<open>queue_after_stop\<close>). Up to the first \<open>stop\<close> every unfinished drain
  task is the one the stream refers to (\<open>sole_task_run\<close>), so the first \<open>stop\<close> cancels
  every task that holds a chunk, and what is written after it was enqueued after it
  (\<open>first_interruption\<close>).
\<close>

lemma live_held_split:
  assumes "i < length (tasks p)"
  shows "live_held p = task_holds (tasks p ! i) + (\<Sum>j\<in>{..<length (tasks p)} - {i}. task_holds (tasks p ! j))"
  unfolding live_held_def using assms by (simp add: sum.remove)

lemma live_held_update:
  assumes "i < length (tasks p)" and "tasks p' = (tasks p)[i := t']"
  shows "live_held p' + task_holds (tasks p ! i) = live_held p + task_holds t'"
proof -
  have l: "length (tasks p') = length (tasks p)" using assms(2) by simp
  have i': "i < length (tasks p')" using assms(1) l by simp
  have rest: "(\<Sum>j\<in>{..<length (tasks p')} - {i}. task_holds (tasks p' ! j))
            = (\<Sum>j\<in>{..<length (tasks p)} - {i}. task_holds (tasks p ! j))"
    unfolding l by (rule sum.cong) (simp_all add: assms(2))
  have "tasks p' ! i = t'" using assms by simp
  then show ?thesis
    unfolding live_held_split [OF assms(1)] live_held_split [OF i'] rest
    by (simp add: ac_simps)
qed

lemma accounted_update:
  assumes "accounted base given p" and "i < length (tasks p)" and "tasks p' = (tasks p)[i := t']"
    and "mset (written (pb_audio_output p')) + task_holds t' + mset (somes (queue p'))
           \<subseteq># mset (written (pb_audio_output p)) + task_holds (tasks p ! i) + mset (somes (queue p))"
  shows "accounted base given p'"
proof -
  let ?W = "mset (written (pb_audio_output p))" and ?W' = "mset (written (pb_audio_output p'))"
  let ?Q = "mset (somes (queue p))" and ?Q' = "mset (somes (queue p'))"
  let ?t = "task_holds (tasks p ! i)"
  have "?W' + live_held p' + ?Q' + ?t = (?W' + task_holds t' + ?Q') + live_held p"
    using live_held_update [OF assms(2,3)] by (simp add: ac_simps)
  also have "\<dots> \<subseteq># (?W + ?t + ?Q) + live_held p"
    using assms(4) by (simp add: subset_mset.add_right_mono del: mset_subset_eq_add_right)
  also have "\<dots> = (?W + live_held p + ?Q) + ?t" by (simp add: ac_simps)
  finally have "?W' + live_held p' + ?Q' \<subseteq># ?W + live_held p + ?Q"
    by simp
  then show ?thesis
    using assms(1) unfolding accounted_def by (rule subset_mset.order_trans)
qed


lemma drains_finish: "drains i avail p (finish p i)"
  unfolding drains_def finish_def set_pc_def
  by (rule exI [of _ "(tasks p ! i)\<lparr>pc := Finished\<rparr>"]) (simp add: task_holds_def)

lemma drains_set_pc:
  "mset (held c) \<subseteq># avail \<Longrightarrow> drains i avail p (set_pc p i c)"
  unfolding drains_def set_pc_def
  by (rule exI [of _ "(tasks p ! i)\<lparr>pc := c\<rparr>"]) (simp add: task_holds_def)

lemma drains_enter_phase3: "drains i avail p (enter_phase3 p i)"
  by (simp add: enter_phase3_def drains_finish drains_set_pc)

lemma drains_enter_phase2: "drains i (mset initial) p (enter_phase2 p i initial)"
proof (cases initial)
  case Nil
  then show ?thesis by (simp add: enter_phase2_def drains_enter_phase3)
next
  case (Cons chunk rest)
  show ?thesis
  proof (cases "playing p")
    case False
    with Cons show ?thesis by (simp add: enter_phase2_def drains_finish)
  next
    case True
    show ?thesis
    proof (cases "out_open (pb_audio_output p)")
      case False
      with Cons True show ?thesis
        by (simp add: enter_phase2_def out_write_chunk_def drains_set_pc)
    next
      case op: True
      have "drains i (mset initial) p
              (set_pc (p\<lparr>pb_audio_output := (pb_audio_output p)\<lparr>written := written (pb_audio_output p) @ [chunk]\<rparr>\<rparr>) i
                 (Phase2 rest True))"
        unfolding drains_def set_pc_def
        by (rule exI [of _ "(tasks p ! i)\<lparr>pc := Phase2 rest True\<rparr>"])
           (simp add: task_holds_def Cons)
      with Cons True op show ?thesis
        by (simp add: enter_phase2_def out_write_chunk_def)
    qed
  qed
qed

lemma drains_weaken: "drains i a p p' \<Longrightarrow> a \<subseteq># b \<Longrightarrow> drains i b p p'"
  unfolding drains_def
  by (meson subset_mset.add_left_mono subset_mset.add_right_mono subset_mset.order_trans)

lemma drains_dequeue:
  assumes "queue p = item # q" and "drains i a (p\<lparr>queue := q\<rparr>) p'"
    and "a \<subseteq># b + mset (somes [item])"
  shows "drains i b p p'"
proof -
  from assms(2) obtain t' where
    t: "tasks p' = (tasks p)[i := t']" and
    le: "mset (written (pb_audio_output p')) + task_holds t' + mset (somes (queue p'))
           \<subseteq># mset (written (pb_audio_output p)) + a + mset (somes q)"
    unfolding drains_def by auto
  have q: "mset (somes (queue p)) = mset (somes [item]) + mset (somes q)"
    using assms(1) by (cases item) simp_all
  have "mset (written (pb_audio_output p)) + a + mset (somes q)
          \<subseteq># mset (written (pb_audio_output p)) + (b + mset (somes [item])) + mset (somes q)"
    using assms(3) by (simp del: mset_subset_eq_add_right)
  also have "\<dots> = mset (written (pb_audio_output p)) + b + mset (somes (queue p))"
    by (simp add: q ac_simps)
  finally show ?thesis
    unfolding drains_def using t le by (meson subset_mset.order_trans)
qed

lemma drains_refl: "i < length (tasks p) \<Longrightarrow> drains i (task_holds (tasks p ! i)) p p"
  unfolding drains_def by (rule exI [of _ "tasks p ! i"]) simp

lemma drains_resume:
  assumes "i < length (tasks p)"
  shows "drains i (task_holds (tasks p ! i)) p (resume p i timed_out)"
proof -
  define t where "t = tasks p ! i"
  show ?thesis
  proof (cases "cancel_requested t")
    case True
    have "resume p i timed_out = p \<or> resume p i timed_out = finish p i
            \<or> resume p i timed_out = set_pc p i Finished"
      using assms True unfolding t_def
      by (cases "pc (tasks p ! i)") (simp_all add: resume_def)
    then show ?thesis
      using drains_refl [OF assms] drains_finish drains_set_pc [of Finished]
      by (auto simp: t_def)
  next
    case nc: False
    then have th: "task_holds t = mset (held (pc t))"
      by (simp add: task_holds_def)
    show ?thesis
    proof (cases "pc t")
      case NotStarted
      show ?thesis
        using assms nc NotStarted drains_enter_phase2 [of i "[]" p] drains_set_pc
        by (simp add: resume_def t_def [symmetric] th)
    next
      case (Phase1 k initial)
      show ?thesis
      proof (cases "queue p")
        case Nil
        show ?thesis
          using assms nc Phase1 Nil drains_enter_phase2 [of i initial p] drains_refl [OF assms]
          by (simp add: resume_def t_def [symmetric] th)
      next
        case (Cons item q)
        have "drains i (mset initial) p
                (case item of
                   None \<Rightarrow> enter_phase2 (p\<lparr>queue := q\<rparr>) i initial
                 | Some chunk \<Rightarrow>
                     if k \<le> 1 then enter_phase2 (p\<lparr>queue := q\<rparr>) i (initial @ [chunk])
                     else set_pc (p\<lparr>queue := q\<rparr>) i (Phase1 (k - 1) (initial @ [chunk])))"
        proof (cases item)
          case None
          show ?thesis
            unfolding None option.case
            by (rule drains_dequeue [OF Cons drains_enter_phase2]) simp
        next
          case (Some chunk)
          show ?thesis
          proof (cases "k \<le> 1")
            case True
            show ?thesis
              unfolding Some option.case using True
              by (simp add: drains_dequeue [OF Cons drains_enter_phase2] Some)
          next
            case False
            have "drains i (mset (initial @ [chunk])) (p\<lparr>queue := q\<rparr>)
                    (set_pc (p\<lparr>queue := q\<rparr>) i (Phase1 (k - 1) (initial @ [chunk])))"
              by (rule drains_set_pc) simp
            then show ?thesis
              unfolding Some option.case using False
              by (simp add: drains_dequeue [OF Cons] Some)
          qed
        qed
        then show ?thesis
          using assms nc Phase1 Cons by (simp add: resume_def t_def [symmetric] th)
      qed
    next
      case (Phase2 rest ok)
      show ?thesis
        using assms nc Phase2 drains_enter_phase2 [of i rest p] drains_finish
        by (simp add: resume_def t_def [symmetric] th)
    next
      case Phase3Get
      show ?thesis
      proof (cases "queue p")
        case Nil
        show ?thesis
          using assms nc Phase3Get Nil drains_finish drains_refl [OF assms]
          by (simp add: resume_def t_def [symmetric] th)
      next
        case (Cons item q)
        show ?thesis
        proof (cases item)
          case None
          have "drains i {#} p (finish (p\<lparr>queue := q\<rparr>) i)"
            by (rule drains_dequeue [OF Cons drains_finish [of i "{#}"]]) simp
          then show ?thesis
            using assms nc Phase3Get Cons None by (simp add: resume_def t_def [symmetric] th)
        next
          case (Some chunk)
          have a: "drains i {#} p (finish (p\<lparr>queue := q\<rparr>) i)"
            by (rule drains_dequeue [OF Cons drains_finish [of i "{#}"]]) simp
          have b: "drains i {#} p (set_pc (p\<lparr>queue := q\<rparr>) i (Phase3Write False))"
            by (rule drains_dequeue [OF Cons drains_set_pc [of _ "{#}"]]) simp_all
          have c: "drains i {#} p
                     (set_pc (p\<lparr>queue := q, pb_audio_output :=
                         (pb_audio_output p)\<lparr>written := written (pb_audio_output p) @ [chunk]\<rparr>\<rparr>) i
                        (Phase3Write True))"
            unfolding drains_def set_pc_def
            by (rule exI [of _ "(tasks p ! i)\<lparr>pc := Phase3Write True\<rparr>"])
               (simp add: task_holds_def Cons Some)
          show ?thesis
            using assms nc Phase3Get Cons Some a b c
            by (simp add: resume_def t_def [symmetric] th out_write_chunk_def)
        qed
      qed
    next
      case (Phase3Write ok)
      show ?thesis
        using assms nc Phase3Write drains_enter_phase3 drains_finish
        by (simp add: resume_def t_def [symmetric] th)
    next
      case Finished
      show ?thesis
        using assms nc Finished drains_refl [OF assms]
        by (simp add: resume_def t_def [symmetric] th)
    qed
  qed
qed


lemma accounted_resume:
  assumes "accounted base given p"
  shows "accounted base given (resume p i timed_out)"
proof (cases "i < length (tasks p)")
  case True
  from drains_resume [OF True, of timed_out] obtain t' where
    "tasks (resume p i timed_out) = (tasks p)[i := t']" and
    "mset (written (pb_audio_output (resume p i timed_out))) + task_holds t'
        + mset (somes (queue (resume p i timed_out)))
      \<subseteq># mset (written (pb_audio_output p)) + task_holds (tasks p ! i) + mset (somes (queue p))"
    unfolding drains_def by auto
  with assms True show ?thesis by (rule accounted_update)
next
  case False
  with assms show ?thesis by (simp add: resume_def)
qed

lemma live_held_append_new:
  "live_held (p\<lparr>tasks := tasks p @ [\<lparr>pc = NotStarted, cancel_requested = False\<rparr>]\<rparr>) = live_held p"
  by (auto simp: live_held_def nth_append task_holds_def intro!: sum.cong)

lemma live_held_cong:
  "tasks p' = tasks p \<Longrightarrow> live_held p' = live_held p"
  by (simp add: live_held_def)

lemma accounted_play:
  assumes "accounted base given p"
  shows "accounted base (add_mset c given) (play_chunk p c)"
proof -
  have "live_held (play_chunk p c) = live_held p"
    using live_held_append_new [of p]
    by (simp add: play_chunk_def Let_def live_held_def)
  moreover have "mset (written (pb_audio_output (play_chunk p c))) = mset (written (pb_audio_output p))"
    by (simp add: play_chunk_def Let_def out_open_stream_def)
  moreover have "mset (somes (queue (play_chunk p c))) = mset (somes (queue p)) + {#c#}"
    by (simp add: play_chunk_def Let_def somes_append)
  ultimately show ?thesis
    using assms unfolding accounted_def
    by (simp add: ac_simps)
qed

lemma accounted_flush:
  assumes "accounted base given p"
  shows "accounted base given (fst (flush_begin p))"
  using assms
  by (auto simp: accounted_def flush_begin_def somes_append live_held_def split: option.splits)

lemma live_held_cancel: "live_held (cancel p i) \<subseteq># live_held p"
proof (cases "i < length (tasks p)")
  case True
  have "live_held (cancel p i) + task_holds (tasks p ! i)
          = live_held p + task_holds (cancel_task (tasks p ! i))"
    by (rule live_held_update [OF True]) (simp add: cancel_def)
  moreover have "task_holds (cancel_task (tasks p ! i)) \<subseteq># task_holds (tasks p ! i)"
    by (simp add: cancel_task_def task_holds_def)
  ultimately have "live_held (cancel p i) + task_holds (tasks p ! i)
                     \<subseteq># live_held p + task_holds (tasks p ! i)"
    by (simp del: mset_subset_eq_add_left)
  then show ?thesis by simp
next
  case False
  then show ?thesis by (simp add: cancel_def live_held_def)
qed

lemma accounted_stop:
  assumes "accounted base given p"
  shows "accounted base given (playback_stop p)"
proof -
  have lh: "live_held (playback_stop p) \<subseteq># live_held p"
  proof (cases "pb_task p")
    case None
    then show ?thesis by (simp add: playback_stop_def Let_def live_held_def)
  next
    case (Some i)
    have "live_held (playback_stop p) = live_held (cancel p i)"
      using Some by (simp add: playback_stop_def Let_def live_held_def cancel_def)
    then show ?thesis using live_held_cancel [of p i] by simp
  qed
  have w: "written (pb_audio_output (playback_stop p)) = written (pb_audio_output p)"
    by (simp add: playback_stop_def Let_def out_stop_def cancel_def split: option.splits)
  have q: "queue (playback_stop p) = []"
    by (simp add: playback_stop_def Let_def cancel_def split: option.splits)
  have "mset (written (pb_audio_output p)) + live_held (playback_stop p)
          \<subseteq># mset (written (pb_audio_output p)) + live_held p + mset (somes (queue p))"
    using lh by (meson mset_subset_eq_add_left subset_mset.add_left_mono subset_mset.order_trans)
  then have "mset (written (pb_audio_output p)) + live_held (playback_stop p) \<subseteq># base + given"
    using assms unfolding accounted_def by (rule subset_mset.order_trans)
  then show ?thesis
    unfolding accounted_def w q by simp
qed


lemma accounted_step:
  "accounted base given p \<Longrightarrow> accounted base (given + given_by a) (pb_step a p)"
  by (cases a) (simp_all add: accounted_play accounted_flush accounted_stop accounted_resume)

lemma mset_enqueued_Cons: "mset (enqueued (a # acts)) = given_by a + mset (enqueued acts)"
  by (cases a) simp_all

lemma accounted_run:
  "accounted base given p \<Longrightarrow> accounted base (given + mset (enqueued acts)) (pb_run acts p)"
proof (induction acts arbitrary: given p)
  case Nil
  then show ?case by (simp add: pb_run_def)
next
  case (Cons a acts)
  from Cons.IH [OF accounted_step [OF Cons.prems, of a]]
  show ?case by (simp add: pb_run_Cons mset_enqueued_Cons ac_simps)
qed

lemma accounted_init:
  "accounted (mset (written out)) {#} (AudioPlaybackStream_init out rate k)"
  by (simp add: accounted_def AudioPlaybackStream_init_def live_held_def)

lemma accounted_written:
  "accounted base given p \<Longrightarrow> mset (written (pb_audio_output p)) \<subseteq># base + given"
  unfolding accounted_def
  by (metis mset_subset_eq_add_left subset_mset.order_trans add.assoc)

lemma written_was_enqueued:
  "mset (written (pb_audio_output (pb_run acts (AudioPlaybackStream_init out rate k))))
     \<subseteq># mset (written out) + mset (enqueued acts)"
  using accounted_written [OF accounted_run [OF accounted_init]] by simp

lemma concat_length_mono:
  assumes "mset xs \<subseteq># mset ys"
  shows "length (concat xs) \<le> length (concat (ys :: 'a list list))"
proof -
  have l: "\<And>zs :: 'a list list. length (concat zs) = sum_mset (image_mset length (mset zs))"
    by (simp add: length_concat sum_mset_sum_list [symmetric] del: sum_mset_sum_list)
  from assms obtain C where "mset ys = mset xs + C"
    by (metis subset_mset.less_eqE)
  then show ?thesis by (simp add: l)
qed

lemma bytes_written_bounded:
  "bytes_written (pb_audio_output (pb_run acts (AudioPlaybackStream_init out rate k)))
     \<le> bytes_written out + length (concat (enqueued acts))"
proof -
  have "mset (written (pb_audio_output (pb_run acts (AudioPlaybackStream_init out rate k))))
          \<subseteq># mset (written out @ enqueued acts)"
    using written_was_enqueued [of acts out rate k] by simp
  from concat_length_mono [OF this] show ?thesis by (simp add: bytes_written_def)
qed

lemma queue_after_stop: "queue (playback_stop p) = [] \<and> \<not> playing (playback_stop p) \<and> pb_task (playback_stop p) = None"
  by (simp add: playback_stop_def Let_def cancel_def split: option.splits)


lemma turn_of_resume:
  assumes "i < length (tasks p)"
  shows "turn_of i p (resume p i timed_out)"
  using assms
  by (cases "pc (tasks p ! i)"; cases "queue p"; cases "hd (queue p)")
     (auto simp: turn_of_def resume_def enter_phase2_def enter_phase3_def finish_def set_pc_def
        out_write_chunk_def Let_def split: list.splits)


lemma sole_task_resume:
  assumes "sole_task p"
  shows "sole_task (resume p i timed_out)"
proof (cases "i < length (tasks p)")
  case False
  with assms show ?thesis by (simp add: resume_def)
next
  case True
  show ?thesis
  proof (cases "pc (tasks p ! i) = Finished")
    case fin: True
    have "resume p i timed_out = p"
      using turn_of_resume [OF True, of timed_out] fin by (simp add: turn_of_def)
    with assms show ?thesis by simp
  next
    case False
    with assms True have cur: "pb_task p = Some i" "playing p" "\<not> cancel_requested (tasks p ! i)"
      unfolding sole_task_def by auto
    have others: "\<And>j. j < length (tasks p) \<Longrightarrow> j \<noteq> i \<Longrightarrow> pc (tasks p ! j) = Finished"
      using assms cur(1) unfolding sole_task_def by auto
    let ?p = "resume p i timed_out"
    have t: "turn_of i p ?p" by (rule turn_of_resume [OF True])
    show ?thesis
      unfolding sole_task_def
    proof (intro allI impI)
      fix j assume j: "j < length (tasks ?p)"
      show "pc (tasks ?p ! j) = Finished \<or>
            (pb_task ?p = Some j \<and> playing ?p \<and> \<not> cancel_requested (tasks ?p ! j))"
      proof (cases "j = i")
        case True
        with t cur show ?thesis by (auto simp: turn_of_def)
      next
        case False
        with t j others [of j] show ?thesis by (simp add: turn_of_def)
      qed
    qed
  qed
qed

lemma sole_task_play:
  assumes "sole_task p"
  shows "sole_task (play_chunk p c)"
proof (cases "playing p")
  case True
  with assms show ?thesis by (simp add: play_chunk_def sole_task_def)
next
  case False
  with assms have "\<And>j. j < length (tasks p) \<Longrightarrow> pc (tasks p ! j) = Finished"
    unfolding sole_task_def by auto
  with False show ?thesis
    by (auto simp: play_chunk_def sole_task_def Let_def nth_append less_Suc_eq)
qed

lemma sole_task_flush: "sole_task p \<Longrightarrow> sole_task (fst (flush_begin p))"
  by (auto simp: flush_begin_def sole_task_def split: option.splits)

lemma sole_task_run:
  "no_stop acts \<Longrightarrow> sole_task p \<Longrightarrow> sole_task (pb_run acts p)"
proof (induction acts arbitrary: p)
  case Nil
  then show ?case by (simp add: pb_run_def)
next
  case (Cons a acts)
  have "sole_task (pb_step a p)"
    using Cons.prems
    by (cases a) (simp_all add: no_stop_def sole_task_play sole_task_flush sole_task_resume)
  with Cons show ?case by (simp add: pb_run_Cons no_stop_def)
qed

lemma sole_task_init: "sole_task (AudioPlaybackStream_init out rate k)"
  by (simp add: sole_task_def AudioPlaybackStream_init_def)

lemma tasks_after_stop:
  "tasks (playback_stop p) =
     (case pb_task p of None \<Rightarrow> tasks p | Some i \<Rightarrow> (tasks p)[i := cancel_task (tasks p ! i)])"
  by (cases "pb_task p"; cases "out_open (pb_audio_output p)")
     (simp_all add: playback_stop_def Let_def cancel_def)

lemma live_held_after_stop:
  assumes "sole_task p"
  shows "live_held (playback_stop p) = {#}"
proof -
  have "\<And>j. j < length (tasks (playback_stop p)) \<Longrightarrow> task_holds (tasks (playback_stop p) ! j) = {#}"
  proof -
    fix j assume j: "j < length (tasks (playback_stop p))"
    then have jl: "j < length (tasks p)"
      by (simp add: tasks_after_stop split: option.splits)
    show "task_holds (tasks (playback_stop p) ! j) = {#}"
    proof (cases "pc (tasks p ! j) = Finished")
      case True
      show ?thesis
      proof (cases "pb_task p")
        case None
        with True show ?thesis by (simp add: tasks_after_stop task_holds_def)
      next
        case (Some a)
        show ?thesis
        proof (cases "a = j")
          case eq: True
          with Some True jl show ?thesis
            by (simp add: tasks_after_stop cancel_task_def task_holds_def)
        next
          case False
          with Some True show ?thesis
            by (simp add: tasks_after_stop task_holds_def)
        qed
      qed
    next
      case False
      with assms jl have "pb_task p = Some j" unfolding sole_task_def by auto
      then show ?thesis
        using jl by (simp add: tasks_after_stop cancel_task_def task_holds_def)
    qed
  qed
  then show ?thesis by (simp add: live_held_def)
qed

lemma first_interruption:
  assumes "no_stop before"
  shows "mset (written (pb_audio_output
            (pb_run (before @ Stop # after) (AudioPlaybackStream_init out rate k))))
         \<subseteq># mset (written (pb_audio_output
            (pb_run (before @ [Stop]) (AudioPlaybackStream_init out rate k))))
            + mset (enqueued after)"
proof -
  let ?p = "pb_run before (AudioPlaybackStream_init out rate k)"
  have s: "sole_task ?p" using assms sole_task_init by (rule sole_task_run)
  have "accounted (mset (written (pb_audio_output (playback_stop ?p)))) {#} (playback_stop ?p)"
    unfolding accounted_def
    by (simp add: live_held_after_stop [OF s] queue_after_stop)
  from accounted_written [OF accounted_run [OF this, of after]]
  show ?thesis by (simp add: pb_run_append pb_run_Cons pb_run_def)
qed

text \<open>
  Claim C5. The last part of the claim, that no chunk enqueued before an interruption is
  written to the speaker after it, fails at a second interruption. In the run
  \<open>until_second_stop\<close>, which ends with \<open>stop\<close>, the chunk \<open>[2]\<close> is enqueued right
  after the first \<open>stop\<close>, before the cancelled first drain task has run again. When
  that task runs, its \<open>finally\<close> block sets \<open>_playing\<close> to false although the second
  task is now the stream's task. The second task takes \<open>[2]\<close> from the queue; the chunk
  \<open>[3]\<close> finds \<open>_playing\<close> false and starts a third task, and the second \<open>stop\<close>
  cancels that third task only. At the second \<open>stop\<close> the queue is empty and nothing
  has been written. Then the chunk \<open>[4]\<close> arrives, \<open>_playing\<close> is true again, and the
  second task, whose wait times out, writes \<open>[2]\<close>: a chunk enqueued before the second
  interruption and not after it. This happens whether the second or the fourth task
  takes \<open>[4]\<close> from the queue, and it happens in a conversation whose session delivers
  these messages.
\<close>

theorem stale_drain_task_writes_after_interruption:
  "last until_second_stop = Stop \<and>
   [2] \<in> set (enqueued until_second_stop) \<and>
   [2] \<notin> set (enqueued after_second_stop) \<and>
   [2] \<notin> set (enqueued after_second_stop_taken) \<and>
   queue (pb_run until_second_stop (AudioPlaybackStream_init demo_speaker 24000 3)) = [] \<and>
   written (pb_audio_output
      (pb_run until_second_stop (AudioPlaybackStream_init demo_speaker 24000 3))) = [] \<and>
   written (pb_audio_output
      (pb_run (until_second_stop @ after_second_stop)
         (AudioPlaybackStream_init demo_speaker 24000 3))) = [[2]] \<and>
   written (pb_audio_output
      (pb_run (until_second_stop @ after_second_stop_taken)
         (AudioPlaybackStream_init demo_speaker 24000 3))) = [[2]] \<and>
   written (pb_audio_output (cv_playback
      (conv_run (schedule two_interruptions_env)
         (conv_begin demo_in_conversation two_interruptions_env)))) = [[2]]"
proof -
  have e: "last until_second_stop = Stop \<and> [2] \<in> set (enqueued until_second_stop) \<and>
           [2] \<notin> set (enqueued after_second_stop) \<and>
           [2] \<notin> set (enqueued after_second_stop_taken)"
    by (simp add: until_second_stop_def after_second_stop_def after_second_stop_taken_def)
  have a: "queue (pb_run until_second_stop (AudioPlaybackStream_init demo_speaker 24000 3)) = [] \<and>
           written (pb_audio_output
             (pb_run until_second_stop (AudioPlaybackStream_init demo_speaker 24000 3))) = []"
    by (simp add: until_second_stop_def pb_defs demo_speaker_def)
  have b: "written (pb_audio_output
             (pb_run (until_second_stop @ after_second_stop)
                (AudioPlaybackStream_init demo_speaker 24000 3))) = [[2]]"
    by (simp add: until_second_stop_def after_second_stop_def pb_defs demo_speaker_def)
  have c: "written (pb_audio_output
             (pb_run (until_second_stop @ after_second_stop_taken)
                (AudioPlaybackStream_init demo_speaker 24000 3))) = [[2]]"
    by (simp add: until_second_stop_def after_second_stop_taken_def pb_defs demo_speaker_def)
  have d: "written (pb_audio_output (cv_playback
             (conv_run (schedule two_interruptions_env)
                (conv_begin demo_in_conversation two_interruptions_env)))) = [[2]]"
    by (simp add: two_interruptions_env_def demo_in_conversation_def audio_message_def
          demo_defs demo_personality_def conv_defs pb_defs)
  from e a b c d show ?thesis by blast
qed

end
